theory Spec2Isabelle
  imports Complex_Main
begin

section \<open>Values of type double\<close>

text \<open>
  A C++ \<open>double\<close> is modelled by the real number it denotes, or one of the three special
  values; \<open>-0.0\<close> is not distinguished from \<open>0.0\<close> (the program never tells them apart:
  it only compares with \<open>>\<close> and \<open>==\<close>). The results of conversions and of arithmetic are
  rounded to the nearest binary64 number, ties to the even significand.
\<close>

datatype double = Finite real | PosInf | NegInf | NaN

text \<open>\<open>m * b^e\<close> for an integer exponent of either sign.\<close>

definition scale :: "real \<Rightarrow> real \<Rightarrow> int \<Rightarrow> real" where
  "scale m b e = (if 0 \<le> e then m * b ^ nat e else m / b ^ nat (- e))"

text \<open>
  The binary exponent of a positive number \<open>a\<close>: the \<open>e\<close> with \<open>2^e \<le> a < 2^(e+1)\<close>, found
  by halving or doubling. The bounds on the number of steps are those of the format: the
  exponent of a binary64 number is at most 1023, and below \<open>2^-1022\<close> the numbers are
  subnormal and keep the exponent -1022.
\<close>

fun halvings :: "nat \<Rightarrow> real \<Rightarrow> int" where
  "halvings 0 a = 0"
| "halvings (Suc n) a = (if 2 \<le> a then 1 + halvings n (a / 2) else 0)"

fun doublings :: "nat \<Rightarrow> real \<Rightarrow> int" where
  "doublings 0 a = 0"
| "doublings (Suc n) a = (if a < 1 then 1 + doublings n (2 * a) else 0)"

definition exponent :: "real \<Rightarrow> int" where
  "exponent a = (if 1 \<le> a then halvings 1024 a else - doublings 1022 a)"

definition round_half_even :: "real \<Rightarrow> int" where
  "round_half_even q =
     (let f = \<lfloor>q\<rfloor>; d = q - of_int f
      in if d < 1 / 2 then f else if 1 / 2 < d then f + 1 else if even f then f else f + 1)"

text \<open>The nearest number with a significand of 53 bits at the exponent of \<open>v\<close>.\<close>

definition round64 :: "real \<Rightarrow> real" where
  "round64 v =
     (if v = 0 then 0
      else (let e = exponent \<bar>v\<bar>;
                n = round_half_even (scale \<bar>v\<bar> 2 (52 - e));
                r = scale (of_int n) 2 (e - 52)
            in if v < 0 then - r else r))"

text \<open>\<open>d > c\<close> for a finite constant \<open>c\<close>; every comparison with NaN is false.\<close>

definition dgreater :: "double \<Rightarrow> real \<Rightarrow> bool" where
  "dgreater d c = (case d of Finite r \<Rightarrow> c < r | PosInf \<Rightarrow> True | NegInf \<Rightarrow> False | NaN \<Rightarrow> False)"

text \<open>\<open>d - c\<close> for a finite constant \<open>c\<close>.\<close>

definition dminus :: "double \<Rightarrow> real \<Rightarrow> double" where
  "dminus d c =
     (case d of Finite r \<Rightarrow> Finite (round64 (r - c)) | PosInf \<Rightarrow> PosInf | NegInf \<Rightarrow> NegInf
      | NaN \<Rightarrow> NaN)"

section \<open>The standard library: \<open>std::stod\<close>\<close>

text \<open>
  \<open>std::stod(str)\<close> calls \<open>strtod\<close>: it skips leading white space, reads an optional sign
  and then the longest prefix that is a decimal number (digits with an optional point and
  an optional exponent), a hexadecimal number (\<open>0x\<close>, hexadecimal digits with an optional
  point, an optional binary exponent), \<open>inf\<close>/\<open>infinity\<close> or \<open>nan\<close>, in any case.
  What follows the prefix is ignored. With no such prefix it throws
  \<open>std::invalid_argument\<close>; when \<open>strtod\<close> reports \<open>ERANGE\<close> it throws
  \<open>std::out_of_range\<close>. The range is that of IEEE binary64: a magnitude that rounds to
  infinity overflows. Whether a magnitude below the smallest normal number sets \<open>ERANGE\<close>
  is left to the implementation by the C standard; here every nonzero one does. The value
  returned is the decimal or hexadecimal value rounded to binary64.
\<close>

datatype stod_result = Converted double | InvalidArgument | OutOfRange

definition isspace :: "char \<Rightarrow> bool" where
  "isspace c = (let n = (of_char c :: nat) in n = 32 \<or> (9 \<le> n \<and> n \<le> 13))"

definition isdigit :: "char \<Rightarrow> bool" where
  "isdigit c = (let n = (of_char c :: nat) in 48 \<le> n \<and> n \<le> 57)"

definition tolower :: "char \<Rightarrow> char" where
  "tolower c = (let n = (of_char c :: nat) in if 65 \<le> n \<and> n \<le> 90 then char_of (n + 32) else c)"

definition isxdigit :: "char \<Rightarrow> bool" where
  "isxdigit c = (let n = (of_char (tolower c) :: nat) in isdigit c \<or> (97 \<le> n \<and> n \<le> 102))"

definition xdigit_val :: "char \<Rightarrow> nat" where
  "xdigit_val c = (let n = (of_char (tolower c) :: nat) in if isdigit c then n - 48 else n - 87)"

definition digits_val :: "nat \<Rightarrow> string \<Rightarrow> nat" where
  "digits_val base ds = foldl (\<lambda>a c. base * a + xdigit_val c) 0 ds"

definition starts_with_ci :: "string \<Rightarrow> string \<Rightarrow> bool" where
  "starts_with_ci w s = (take (length w) (map tolower s) = w)"

text \<open>An exponent part: the marker, an optional sign and at least one decimal digit;
  an incomplete exponent is not part of the number.\<close>

definition exponent_part :: "char \<Rightarrow> string \<Rightarrow> int" where
  "exponent_part marker s =
     (case s of
        [] \<Rightarrow> 0
      | c # r \<Rightarrow>
          if tolower c \<noteq> marker then 0
          else (case r of
                  [] \<Rightarrow> 0
                | sg # r' \<Rightarrow>
                    if sg = CHR ''-'' then - int (digits_val 10 (takeWhile isdigit r'))
                    else if sg = CHR ''+'' then int (digits_val 10 (takeWhile isdigit r'))
                    else int (digits_val 10 (takeWhile isdigit r))))"

text \<open>The digits before and after the point, and what follows them.\<close>

definition mantissa :: "(char \<Rightarrow> bool) \<Rightarrow> string \<Rightarrow> string \<times> string \<times> string" where
  "mantissa dig s =
     (let ip = takeWhile dig s; r = dropWhile dig s
      in case r of
           [] \<Rightarrow> (ip, [], r)
         | c # r' \<Rightarrow>
             if c = CHR ''.'' then (ip, takeWhile dig r', dropWhile dig r') else (ip, [], r))"

definition is_hex_start :: "string \<Rightarrow> bool" where
  "is_hex_start s =
     (case s of
        z # x # r \<Rightarrow>
          z = CHR ''0'' \<and> tolower x = CHR ''x'' \<and>
          (case mantissa isxdigit r of (ip, fp, _) \<Rightarrow> ip \<noteq> [] \<or> fp \<noteq> [])
      | _ \<Rightarrow> False)"

definition in_range :: "real \<Rightarrow> bool" where
  "in_range v = (v = 0 \<or> (\<bar>v\<bar> < 2 ^ 1024 - 2 ^ 970 \<and> 1 \<le> \<bar>v\<bar> * 2 ^ 1022))"

definition finite_result :: "bool \<Rightarrow> real \<Rightarrow> stod_result" where
  "finite_result neg v =
     (if in_range v then Converted (Finite (if neg then - round64 v else round64 v))
      else OutOfRange)"

definition stod_unsigned :: "bool \<Rightarrow> string \<Rightarrow> stod_result" where
  "stod_unsigned neg s =
     (if starts_with_ci ''inf'' s then Converted (if neg then NegInf else PosInf)
      else if starts_with_ci ''nan'' s then Converted NaN
      else if is_hex_start s then
        (case mantissa isxdigit (drop 2 s) of
           (ip, fp, r) \<Rightarrow>
             finite_result neg
               (scale (real (digits_val 16 (ip @ fp))) 2
                  (exponent_part (CHR ''p'') r - 4 * int (length fp))))
      else
        (case mantissa isdigit s of
           (ip, fp, r) \<Rightarrow>
             if ip = [] \<and> fp = [] then InvalidArgument
             else finite_result neg
                    (scale (real (digits_val 10 (ip @ fp))) 10
                       (exponent_part (CHR ''e'') r - int (length fp)))))"

definition stod :: "string \<Rightarrow> stod_result" where
  "stod str =
     (case dropWhile isspace str of
        [] \<Rightarrow> InvalidArgument
      | c # r \<Rightarrow>
          if c = CHR ''-'' then stod_unsigned True r
          else if c = CHR ''+'' then stod_unsigned False r
          else stod_unsigned False (c # r))"

section \<open>The geometry library\<close>

text \<open>
  The S2 library is not part of the program. The operations the program uses are
  parameters of the model: \<open>ToPoint lat lng\<close> is
  \<open>S2LatLng::FromDegrees(lat, lng).ToPoint()\<close>, \<open>PointEq\<close> is \<open>operator==\<close> of
  \<open>S2Point\<close>, \<open>IsNormalized vs\<close> says whether the loop with the vertices \<open>vs\<close> encloses at
  most half of the sphere, and \<open>Contains vs p\<close> says whether the shape of the polygon whose
  loop has the vertices \<open>vs\<close> is reported by \<open>S2ContainsPointQuery\<close> for the point \<open>p\<close>.
  A polygon is represented by the vertices of its loop, in the order in which the loop
  keeps them.
\<close>

record 'p s2 =
  ToPoint :: "double \<Rightarrow> double \<Rightarrow> 'p"
  PointEq :: "'p \<Rightarrow> 'p \<Rightarrow> bool"
  IsNormalized :: "'p list \<Rightarrow> bool"
  Contains :: "'p list \<Rightarrow> 'p \<Rightarrow> bool"

text \<open>
  \<open>S2Loop::Normalize()\<close> inverts the loop when it encloses more than half of the sphere,
  and \<open>Invert()\<close> reverses the order of the vertices. (A loop of a single vertex is the
  library's empty or full loop, which it treats in its own way; the model keeps the vertex.)
\<close>

definition Normalize :: "'p s2 \<Rightarrow> 'p list \<Rightarrow> 'p list" where
  "Normalize lib vs = (if IsNormalized lib vs then vs else rev vs)"

section \<open>radec_point\<close>

definition radec_point :: "'p s2 \<Rightarrow> double \<Rightarrow> double \<Rightarrow> 'p" where
  "radec_point lib ra dec =
     (let ra = (if dgreater ra 180 then dminus ra 360 else ra)
      in ToPoint lib dec ra)"

section \<open>load_region\<close>

text \<open>
  \<open>std::getline(ss, item, ' ')\<close> on the unread rest of the stream: it fails at the end of
  the input, and otherwise yields the characters before the next space and skips that
  space.
\<close>

definition getline :: "string \<Rightarrow> (string \<times> string) option" where
  "getline ss =
     (if ss = [] then None
      else Some (takeWhile (\<lambda>c. c \<noteq> CHR '' '') ss, drop 1 (dropWhile (\<lambda>c. c \<noteq> CHR '' '') ss)))"

function split_parts :: "string \<Rightarrow> string list \<Rightarrow> string list" where
  "split_parts ss parts =
     (case getline ss of
        None \<Rightarrow> parts
      | Some (item, rest) \<Rightarrow> split_parts rest (parts @ [item]))"
  by pat_completeness auto
termination
proof (relation "measure (\<lambda>(ss, parts). length ss)")
  show "wf (measure (\<lambda>(ss, parts). length ss))" by simp
next
  fix ss :: string and parts :: "string list" and x2 item rest
  assume "getline ss = Some x2" and "(item, rest) = x2"
  then have ne: "ss \<noteq> []" and r: "rest = drop 1 (dropWhile (\<lambda>c. c \<noteq> CHR '' '') ss)"
    by (auto simp: getline_def split: if_splits)
  have "length (dropWhile (\<lambda>c. c \<noteq> CHR '' '') ss) \<le> length ss"
    by (rule length_dropWhile_le)
  moreover have "length rest = length (dropWhile (\<lambda>c. c \<noteq> CHR '' '') ss) - 1"
    by (simp add: r)
  moreover have "0 < length ss"
    using ne by simp
  ultimately have "length rest < length ss"
    by arith
  then show "((rest, parts @ [item]), (ss, parts)) \<in> measure (\<lambda>(ss, parts). length ss)"
    by simp
qed

text \<open>What the program writes to the error stream before it returns a null pointer.\<close>

datatype diagnostic = InvalidRegion | InvalidNumberOfCoordinates | InvalidCoordinate

text \<open>
  The ways in which the program leaves its normal control flow: the read of \<open>parts[0]\<close>
  in an empty vector and the read of \<open>names[id]\<close> past the end (undefined behaviour), a
  \<open>std::out_of_range\<close> that no handler catches, the null pointer given to
  \<open>S2Polygon::Shape\<close>, whose constructor reads the polygon through it, and the \<open>assert\<close>
  of \<open>load\<close>.
\<close>

datatype fault = OutOfBoundsRead | UncaughtOutOfRange | NullDereference | AssertionFailed

text \<open>
  The \<open>std::unique_ptr<S2Polygon>\<close> that \<open>load_region\<close> returns: null, or a polygon given
  by the vertices of its loop.
\<close>

datatype 'p polygon_ptr = Nullptr diagnostic | Polygon "'p list"

text \<open>
  The loop over the coordinate pairs. \<open>std::stod\<close> is called on \<open>parts[i]\<close> first and on
  \<open>parts[i + 1]\<close> only when the first call returned; only \<open>std::invalid_argument\<close> is
  caught. The result \<open>None\<close> is the \<open>return nullptr\<close> of the handler.
\<close>

fun read_points :: "'p s2 \<Rightarrow> string list \<Rightarrow> 'p list \<Rightarrow> fault + 'p list option" where
  "read_points lib (a # b # rest) points =
     (case stod a of
        InvalidArgument \<Rightarrow> Inr None
      | OutOfRange \<Rightarrow> Inl UncaughtOutOfRange
      | Converted ra \<Rightarrow>
          (case stod b of
             InvalidArgument \<Rightarrow> Inr None
           | OutOfRange \<Rightarrow> Inl UncaughtOutOfRange
           | Converted dec \<Rightarrow>
               (let ra = (if dgreater ra 180 then dminus ra 360 else ra)
                in read_points lib rest (points @ [ToPoint lib dec ra]))))"
| "read_points lib rest points = Inr (Some points)"

text \<open>The removal of the duplicate point: \<open>pop_back\<close> when the last point equals the first.\<close>

definition remove_duplicate_point :: "'p s2 \<Rightarrow> 'p list \<Rightarrow> 'p list" where
  "remove_duplicate_point lib points =
     (if 2 \<le> length points \<and> PointEq lib (hd points) (last points)
      then butlast points else points)"

text \<open>
  \<open>load_region\<close>. The polygon returned is made of the loop built from the points that are
  left, after its \<open>Normalize()\<close>.
\<close>

definition load_region :: "'p s2 \<Rightarrow> string \<Rightarrow> fault + 'p polygon_ptr" where
  "load_region lib region =
     (case split_parts region [] of
        [] \<Rightarrow> Inl OutOfBoundsRead
      | p0 # coords \<Rightarrow>
          if p0 \<noteq> ''POLYGON'' then Inr (Nullptr InvalidRegion)
          else if length coords mod 2 \<noteq> 0 then Inr (Nullptr InvalidNumberOfCoordinates)
          else (case read_points lib coords [] of
                  Inl f \<Rightarrow> Inl f
                | Inr None \<Rightarrow> Inr (Nullptr InvalidCoordinate)
                | Inr (Some points) \<Rightarrow>
                    Inr (Polygon (Normalize lib (remove_duplicate_point lib points)))))"

section \<open>IndexedPolygons\<close>

text \<open>
  The shapes of the \<open>MutableS2ShapeIndex\<close> in the order of their ids (the index numbers
  them 0, 1, 2, ... as they are added), each given by the vertices of the polygon it points
  to; the owned polygons; the observation ids.
\<close>

record 'p IndexedPolygons =
  index :: "'p list list"
  polygons :: "'p list list"
  names :: "string list"

text \<open>
  The loop of \<open>IndexedPolygons::load\<close>. The pointer that \<open>load_region\<close> returns goes to
  \<open>S2Polygon::Shape\<close> and to \<open>polygons\<close> unchecked.
\<close>

fun load_loop :: "'p s2 \<Rightarrow> string list \<Rightarrow> 'p IndexedPolygons \<Rightarrow> fault + 'p IndexedPolygons" where
  "load_loop lib [] res = Inr res"
| "load_loop lib (region # regions) res =
     (case load_region lib region of
        Inl f \<Rightarrow> Inl f
      | Inr (Nullptr d) \<Rightarrow> Inl NullDereference
      | Inr (Polygon vs) \<Rightarrow>
          load_loop lib regions (res\<lparr>index := index res @ [vs], polygons := polygons res @ [vs]\<rparr>))"

text \<open>
  \<open>load\<close>, from the two arrays \<open>obs_id\<close> and \<open>s_region\<close> of the footprint file (reading the
  file is input and output, outside the model). The \<open>assert\<close> is compiled in.
\<close>

definition load :: "'p s2 \<Rightarrow> string list \<Rightarrow> string list \<Rightarrow> fault + 'p IndexedPolygons" where
  "load lib obs_id s_region =
     (if length obs_id \<noteq> length s_region then Inl AssertionFailed
      else load_loop lib s_region \<lparr>index = [], polygons = [], names = obs_id\<rparr>)"

text \<open>
  \<open>VisitContainingShapes\<close> calls the visitor on the shapes that contain the point, by
  increasing id; the visitor appends \<open>names[shape->id()]\<close>.
\<close>

fun visit_containing_shapes ::
  "'p s2 \<Rightarrow> string list \<Rightarrow> 'p \<Rightarrow> nat \<Rightarrow> 'p list list \<Rightarrow> string list \<Rightarrow> fault + string list" where
  "visit_containing_shapes lib nms point i [] res = Inr res"
| "visit_containing_shapes lib nms point i (shape # shapes) res =
     (if Contains lib shape point then
        (if i < length nms then visit_containing_shapes lib nms point (i + 1) shapes (res @ [nms ! i])
         else Inl OutOfBoundsRead)
      else visit_containing_shapes lib nms point (i + 1) shapes res)"

definition search :: "'p s2 \<Rightarrow> 'p IndexedPolygons \<Rightarrow> 'p \<Rightarrow> fault + string list" where
  "search lib this point = visit_containing_shapes lib (names this) point 0 (index this) []"

section \<open>The query loop of main\<close>

text \<open>A row of the input file, with the three columns the loop reads.\<close>

record csv_row =
  row_ID :: string
  row_ra :: double
  row_dec :: double

record Target =
  ID :: string
  ra :: double
  dec :: double
  observations :: "string list"

text \<open>\<open>std::vector<Target> results(rows.size())\<close> value-initialises its elements.\<close>

definition empty_target :: Target where
  "empty_target = \<lparr>ID = [], ra = Finite 0, dec = Finite 0, observations = []\<rparr>"

text \<open>The body of the loop for the index \<open>i\<close>: it writes \<open>results[i]\<close> and nothing else.\<close>

definition main_loop_body ::
  "'p s2 \<Rightarrow> 'p IndexedPolygons \<Rightarrow> csv_row list \<Rightarrow> nat \<Rightarrow> Target list \<Rightarrow> fault + Target list" where
  "main_loop_body lib idx rows i results =
     (if length rows \<le> i \<or> length results \<le> i then Inl OutOfBoundsRead
      else (let row = rows ! i
            in case search lib idx (radec_point lib (row_ra row) (row_dec row)) of
                 Inl f \<Rightarrow> Inl f
               | Inr obs \<Rightarrow>
                   Inr (results[i := \<lparr>ID = row_ID row, ra = row_ra row, dec = row_dec row,
                                      observations = obs\<rparr>])))"

text \<open>
  The iterations of the loop, run to completion one after the other in the order given by
  a list of indices. Without OpenMP the order is \<open>0, 1, ..., rows.size() - 1\<close>; with
  \<open>#pragma omp parallel for\<close> the iterations are distributed over threads, and the list is
  the order in which they complete. The progress counter and its output have no effect on
  \<open>results\<close> and are left out. The loop counter is an \<open>int\<close>; the model counts with
  natural numbers, as the program does for fewer than \<open>2^31\<close> rows.
\<close>

fun run_iterations ::
  "'p s2 \<Rightarrow> 'p IndexedPolygons \<Rightarrow> csv_row list \<Rightarrow> nat list \<Rightarrow> Target list \<Rightarrow> fault + Target list" where
  "run_iterations lib idx rows [] results = Inr results"
| "run_iterations lib idx rows (i # order) results =
     (case main_loop_body lib idx rows i results of
        Inl f \<Rightarrow> Inl f
      | Inr results' \<Rightarrow> run_iterations lib idx rows order results')"

definition main_loop_in_order ::
  "'p s2 \<Rightarrow> 'p IndexedPolygons \<Rightarrow> csv_row list \<Rightarrow> nat list \<Rightarrow> fault + Target list" where
  "main_loop_in_order lib idx rows order =
     run_iterations lib idx rows order (replicate (length rows) empty_target)"

definition main_loop :: "'p s2 \<Rightarrow> 'p IndexedPolygons \<Rightarrow> csv_row list \<Rightarrow> fault + Target list" where
  "main_loop lib idx rows = main_loop_in_order lib idx rows [0..<length rows]"

section \<open>An instance of the library for examples\<close>

text \<open>
  Examples are evaluated with points kept as the pair (latitude, longitude) in degrees,
  compared componentwise, with a polygon that contains the points of the rectangle
  spanned by its vertices, and with a loop that is normalized when its vertices run
  counterclockwise in the plane of longitude and latitude (twice the signed area, by the
  sum of the cross products of consecutive vertices, is not negative).
\<close>

fun degrees :: "double \<Rightarrow> real" where
  "degrees (Finite r) = r"
| "degrees d = 0"

definition between_some :: "real list \<Rightarrow> real \<Rightarrow> bool" where
  "between_some cs c = (list_ex (\<lambda>v. v \<le> c) cs \<and> list_ex (\<lambda>v. c \<le> v) cs)"

definition cross :: "real \<times> real \<Rightarrow> real \<times> real \<Rightarrow> real" where
  "cross p q = snd p * fst q - snd q * fst p"

fun cross_sum :: "real \<times> real \<Rightarrow> (real \<times> real) list \<Rightarrow> real" where
  "cross_sum first [] = 0"
| "cross_sum first [p] = cross p first"
| "cross_sum first (p # q # vs) = cross p q + cross_sum first (q # vs)"

definition counterclockwise :: "(real \<times> real) list \<Rightarrow> bool" where
  "counterclockwise vs = (case vs of [] \<Rightarrow> True | p # rest \<Rightarrow> 0 \<le> cross_sum p vs)"

definition box_lib :: "(real \<times> real) s2" where
  "box_lib =
     \<lparr>ToPoint = (\<lambda>lat lng. (degrees lat, degrees lng)),
      PointEq = (\<lambda>p q. p = q),
      IsNormalized = counterclockwise,
      Contains = (\<lambda>vs p. between_some (map fst vs) (fst p) \<and> between_some (map snd vs) (snd p))\<rparr>"

section \<open>Notions used to state the properties\<close>

text \<open>A token converts when \<open>std::stod\<close> returns a value for it.\<close>

definition converts :: "string \<Rightarrow> bool" where
  "converts t = (case stod t of Converted d \<Rightarrow> True | InvalidArgument \<Rightarrow> False | OutOfRange \<Rightarrow> False)"

text \<open>
  A token has a leading numeric prefix when, after white space and an optional sign, it
  starts with a digit, with a point and a digit, or with \<open>inf\<close> or \<open>nan\<close>: these are the
  tokens of which some non-empty prefix is a number.
\<close>

definition numeric_start :: "string \<Rightarrow> bool" where
  "numeric_start u =
     ((case u of
         [] \<Rightarrow> False
       | c # r \<Rightarrow> isdigit c \<or> (c = CHR ''.'' \<and> (case r of [] \<Rightarrow> False | d # r' \<Rightarrow> isdigit d)))
      \<or> starts_with_ci ''inf'' u \<or> starts_with_ci ''nan'' u)"

definition has_numeric_prefix :: "string \<Rightarrow> bool" where
  "has_numeric_prefix t =
     (case dropWhile isspace t of
        [] \<Rightarrow> False
      | c # r \<Rightarrow> if c = CHR ''-'' \<or> c = CHR ''+'' then numeric_start r else numeric_start (c # r))"

text \<open>
  A decimal number, by the grammar of \<open>strtod\<close>: an optional sign, digits with an optional
  point (at least one digit), and an optional exponent, which is \<open>e\<close> or \<open>E\<close>, an optional
  sign and at least one digit; nothing before and nothing after.
\<close>

definition digits1 :: "string \<Rightarrow> bool" where
  "digits1 s = (s \<noteq> [] \<and> list_all isdigit s)"

definition is_exponent :: "string \<Rightarrow> bool" where
  "is_exponent ex =
     (case ex of
        [] \<Rightarrow> True
      | c # r \<Rightarrow>
          tolower c = CHR ''e'' \<and>
          (case r of
             [] \<Rightarrow> False
           | sg # r' \<Rightarrow> if sg = CHR ''-'' \<or> sg = CHR ''+'' then digits1 r' else digits1 r))"

definition is_unsigned_decimal :: "string \<Rightarrow> bool" where
  "is_unsigned_decimal u =
     (let ip = takeWhile isdigit u; r = dropWhile isdigit u
      in case r of
           [] \<Rightarrow> ip \<noteq> []
         | c # r' \<Rightarrow>
             if c = CHR ''.''
             then (ip \<noteq> [] \<or> takeWhile isdigit r' \<noteq> []) \<and> is_exponent (dropWhile isdigit r')
             else ip \<noteq> [] \<and> is_exponent r)"

definition is_decimal_number :: "string \<Rightarrow> bool" where
  "is_decimal_number n =
     (case n of
        [] \<Rightarrow> False
      | c # r \<Rightarrow> if c = CHR ''-'' \<or> c = CHR ''+'' then is_unsigned_decimal r else is_unsigned_decimal n)"

text \<open>A character that continues no number: no digit, no point, and none of \<open>e\<close>, \<open>E\<close>, \<open>x\<close>, \<open>X\<close>.\<close>

definition non_numeric :: "char \<Rightarrow> bool" where
  "non_numeric c =
     (\<not> isdigit c \<and> c \<noteq> CHR ''.'' \<and> tolower c \<noteq> CHR ''e'' \<and> tolower c \<noteq> CHR ''x'')"

text \<open>The coordinate tokens of a descriptor: those after the first.\<close>

definition coordinate_tokens :: "string \<Rightarrow> string list" where
  "coordinate_tokens region = tl (split_parts region [])"

text \<open>The pairs of values (ra, dec) that the coordinate tokens convert to.\<close>

fun coordinate_values :: "string list \<Rightarrow> (double \<times> double) list" where
  "coordinate_values (a # b # rest) =
     (case stod a of
        Converted x \<Rightarrow>
          (case stod b of
             Converted y \<Rightarrow> (x, y) # coordinate_values rest
           | InvalidArgument \<Rightarrow> []
           | OutOfRange \<Rightarrow> [])
      | InvalidArgument \<Rightarrow> []
      | OutOfRange \<Rightarrow> [])"
| "coordinate_values rest = []"

text \<open>
  The ids that a query should report: those of the footprints, in dataset order, whose
  polygon contains the point.
\<close>

definition containing :: "'p s2 \<Rightarrow> string list \<Rightarrow> 'p list list \<Rightarrow> 'p \<Rightarrow> string list" where
  "containing lib nms shapes point =
     map fst (filter (\<lambda>(n, vs). Contains lib vs point) (zip nms shapes))"

text \<open>A region is a valid footprint when \<open>load_region\<close> returns a polygon for it.\<close>

definition parses :: "'p s2 \<Rightarrow> string \<Rightarrow> bool" where
  "parses lib region =
     (case load_region lib region of
        Inl f \<Rightarrow> False
      | Inr (Nullptr d) \<Rightarrow> False
      | Inr (Polygon vs) \<Rightarrow> True)"

text \<open>No two consecutive points of a vertex sequence are equal.\<close>

fun no_consecutive_duplicates :: "'p s2 \<Rightarrow> 'p list \<Rightarrow> bool" where
  "no_consecutive_duplicates lib (a # b # rest) =
     (\<not> PointEq lib a b \<and> no_consecutive_duplicates lib (b # rest))"
| "no_consecutive_duplicates lib rest = True"

text \<open>
  The example dataset: one footprint, the square of two degrees around right ascension 0,
  declination 0, and three targets, the last one at right ascension 359.5.
\<close>

definition box_obs_id :: "string list" where
  "box_obs_id = [''obs-0001-1-1'']"

definition box_s_region :: "string list" where
  "box_s_region = [''POLYGON -1 -1 1 -1 1 1 -1 1'']"

definition box_index :: "(real \<times> real) IndexedPolygons" where
  "box_index =
     \<lparr>index = [[(- 1, - 1), (- 1, 1), (1, 1), (1, - 1)]],
      polygons = [[(- 1, - 1), (- 1, 1), (1, 1), (1, - 1)]],
      names = [''obs-0001-1-1'']\<rparr>"

text \<open>
  A dataset of three footprints: the square around (0, 0), a square around right ascension
  10, declination 10, and a large square that holds both.
\<close>

definition three_obs_id :: "string list" where
  "three_obs_id = [''obs-a'', ''obs-b'', ''obs-c'']"

definition three_s_region :: "string list" where
  "three_s_region =
     [''POLYGON -1 -1 1 -1 1 1 -1 1'', ''POLYGON 9 9 11 9 11 11 9 11'',
      ''POLYGON -20 -20 20 -20 20 20 -20 20'']"

definition three_index :: "(real \<times> real) IndexedPolygons" where
  "three_index =
     \<lparr>index = [[(- 1, - 1), (- 1, 1), (1, 1), (1, - 1)], [(9, 9), (9, 11), (11, 11), (11, 9)],
               [(- 20, - 20), (- 20, 20), (20, 20), (20, - 20)]],
      polygons = [[(- 1, - 1), (- 1, 1), (1, 1), (1, - 1)], [(9, 9), (9, 11), (11, 11), (11, 9)],
                  [(- 20, - 20), (- 20, 20), (20, 20), (20, - 20)]],
      names = [''obs-a'', ''obs-b'', ''obs-c'']\<rparr>"

definition box_rows :: "csv_row list" where
  "box_rows =
     [\<lparr>row_ID = ''t1'', row_ra = Finite 0, row_dec = Finite 0\<rparr>,
      \<lparr>row_ID = ''t2'', row_ra = Finite 45, row_dec = Finite 45\<rparr>,
      \<lparr>row_ID = ''t3'', row_ra = Finite (719 / 2), row_dec = Finite (1 / 2)\<rparr>]"

section \<open>Evaluating the model\<close>

declare split_parts.simps [simp del]

lemma split_parts_Nil: "split_parts [] parts = parts"
  by (subst split_parts.simps) (simp add: getline_def)

lemma split_parts_Cons:
  "split_parts (c # cs) parts =
     split_parts (drop 1 (dropWhile (\<lambda>c. c \<noteq> CHR '' '') (c # cs)))
       (parts @ [takeWhile (\<lambda>c. c \<noteq> CHR '' '') (c # cs)])"
  by (subst split_parts.simps) (simp add: getline_def)

lemma halvings_unfold:
  "halvings n a = (if n = 0 then 0 else if 2 \<le> a then 1 + halvings (n - 1) (a / 2) else 0)"
  by (cases n) simp_all

lemma doublings_unfold:
  "doublings n a = (if n = 0 then 0 else if a < 1 then 1 + doublings (n - 1) (2 * a) else 0)"
  by (cases n) simp_all

lemmas round64_eval = round64_def exponent_def round_half_even_def scale_def Let_def
  halvings_unfold doublings_unfold

lemmas stod_eval = stod_def stod_unsigned_def isspace_def starts_with_ci_def tolower_def
  is_hex_start_def mantissa_def isdigit_def isxdigit_def finite_result_def round64_eval
  exponent_part_def digits_val_def xdigit_val_def in_range_def

lemma round64_minus: "round64 (- v) = - round64 v"
  by (simp add: round64_def Let_def)

lemma round64_values:
  "round64 1 = 1"
  "round64 (1 / 2) = 1 / 2"
  by (simp_all add: round64_eval)

lemma stod_tokens:
  "stod ''0'' = Converted (Finite 0)"
  "stod ''1'' = Converted (Finite 1)"
  "stod ''-1'' = Converted (Finite (- 1))"
  "stod ''2'' = Converted (Finite 2)"
  "stod ''3'' = Converted (Finite 3)"
  "stod ''4'' = Converted (Finite 4)"
  "stod ''5'' = Converted (Finite 5)"
  "stod ''9'' = Converted (Finite 9)"
  "stod ''10'' = Converted (Finite 10)"
  "stod ''11'' = Converted (Finite 11)"
  "stod ''20'' = Converted (Finite 20)"
  "stod ''-20'' = Converted (Finite (- 20))"
  "stod ''359'' = Converted (Finite 359)"
  "stod ''abc'' = InvalidArgument"
  by (simp_all add: stod_eval)

lemmas region_eval = load_region_def split_parts_Nil split_parts_Cons stod_tokens
  dgreater_def dminus_def round64_minus round64_values box_lib_def Normalize_def
  remove_duplicate_point_def
  counterclockwise_def cross_def

section \<open>Regions that fail to parse\<close>

text \<open>
  C1. The claim: a region that fails parsing, such as \<open>POLYGON 1 2 3\<close>, is skipped by the
  build, which goes on and registers the well-formed regions after it. The code does not
  skip: \<open>load_region\<close> returns a null pointer for the region with three coordinates, and
  \<open>load\<close> hands that pointer to \<open>S2Polygon::Shape\<close> without a test, so the build of the
  two-region dataset below ends in the null dereference and the well-formed second region
  is never reached.
\<close>

theorem load_malformed_region_not_skipped:
  "load_region box_lib ''POLYGON 1 2 3'' = Inr (Nullptr InvalidNumberOfCoordinates) \<and>
   load box_lib [''obs-a'', ''obs-b''] [''POLYGON 1 2 3'', ''POLYGON -1 -1 1 -1 1 1 -1 1'']
     = Inl NullDereference"
  by (simp add: load_def region_eval)

text \<open>
  C3. The claim: a descriptor whose first token is not \<open>POLYGON\<close>, also one with no token
  at all, fails with the unrecognized-region diagnostic and is skipped without ending the
  run. For the empty descriptor \<open>parts\<close> is empty and the code reads \<open>parts[0]\<close> all the
  same; for \<open>LINE 1 2 3 4\<close> the diagnostic is issued and a null pointer returned, but
  \<open>load\<close> dereferences it instead of skipping the record.
\<close>

theorem load_region_first_token_faults:
  "load_region box_lib [] = Inl OutOfBoundsRead \<and>
   load_region box_lib ''LINE 1 2 3 4'' = Inr (Nullptr InvalidRegion) \<and>
   load box_lib [''obs-a''] [''LINE 1 2 3 4''] = Inl NullDereference \<and>
   load box_lib [''obs-a''] [[]] = Inl OutOfBoundsRead"
  by (simp add: load_def region_eval)

text \<open>
  A coordinate beyond the range of a double is a third way out of the build: the
  \<open>std::out_of_range\<close> of \<open>std::stod\<close> passes the handler of \<open>load_region\<close> and is caught
  nowhere.
\<close>

lemma stod_1e309: "stod ''1e309'' = OutOfRange"
  by (simp add: stod_eval)

lemma out_of_range_coordinate_uncaught:
  "load_region box_lib ''POLYGON 1e309 0 1 1 2 2 3 3'' = Inl UncaughtOutOfRange \<and>
   load box_lib [''obs-a''] [''POLYGON 1e309 0 1 1 2 2 3 3''] = Inl UncaughtOutOfRange"
  by (simp add: load_def load_region_def split_parts_Nil split_parts_Cons stod_1e309)

section \<open>Facts about the conversion of tokens\<close>

lemma finite_result_not_invalid: "finite_result neg v \<noteq> InvalidArgument"
  by (simp add: finite_result_def)

lemma is_hex_start_numeric: "is_hex_start u \<Longrightarrow> numeric_start u"
  by (auto simp: is_hex_start_def numeric_start_def isdigit_def split: list.splits)

lemma mantissa_empty_iff:
  "(fst (mantissa isdigit u) = [] \<and> fst (snd (mantissa isdigit u)) = []) \<longleftrightarrow>
   \<not> (case u of [] \<Rightarrow> False
       | c # r \<Rightarrow> isdigit c \<or> (c = CHR ''.'' \<and> (case r of [] \<Rightarrow> False | d # r' \<Rightarrow> isdigit d)))"
proof (cases u)
  case Nil
  then show ?thesis by (simp add: mantissa_def)
next
  case (Cons c r)
  show ?thesis
  proof (cases "isdigit c")
    case True
    then show ?thesis using Cons by (simp add: mantissa_def Let_def split: list.splits)
  next
    case False
    then show ?thesis using Cons
      by (cases r) (auto simp: mantissa_def Let_def)
  qed
qed

lemma stod_unsigned_invalid_iff: "stod_unsigned neg u = InvalidArgument \<longleftrightarrow> \<not> numeric_start u"
proof (cases "starts_with_ci ''inf'' u \<or> starts_with_ci ''nan'' u")
  case True
  then show ?thesis by (auto simp: stod_unsigned_def numeric_start_def)
next
  case special: False
  show ?thesis
  proof (cases "is_hex_start u")
    case True
    then show ?thesis
      using special is_hex_start_numeric [OF True]
      by (simp add: stod_unsigned_def finite_result_not_invalid split: prod.splits)
  next
    case False
    obtain ip fp r where m: "mantissa isdigit u = (ip, fp, r)"
      by (cases "mantissa isdigit u") auto
    have "stod_unsigned neg u = InvalidArgument \<longleftrightarrow> ip = [] \<and> fp = []"
      using special False m by (simp add: stod_unsigned_def finite_result_not_invalid)
    also have "\<dots> \<longleftrightarrow> (fst (mantissa isdigit u) = [] \<and> fst (snd (mantissa isdigit u)) = [])"
      by (simp add: m)
    also have "\<dots> \<longleftrightarrow> \<not> numeric_start u"
      using special by (simp add: mantissa_empty_iff numeric_start_def)
    finally show ?thesis .
  qed
qed

lemma stod_invalid_iff: "stod t = InvalidArgument \<longleftrightarrow> \<not> has_numeric_prefix t"
proof (cases "dropWhile isspace t")
  case Nil
  show ?thesis
    unfolding stod_def has_numeric_prefix_def Nil by simp
next
  case (Cons c r)
  show ?thesis
    unfolding stod_def has_numeric_prefix_def Cons
    by (simp add: stod_unsigned_invalid_iff)
qed

lemma read_points_None:
  "read_points lib coords points = Inr None \<Longrightarrow> list_ex (\<lambda>t. stod t = InvalidArgument) coords"
  by (induction lib coords points rule: read_points.induct)
     (auto split: stod_result.splits simp: Let_def)

section \<open>Facts about the coordinate loop\<close>

lemma read_points_pair:
  "stod a = Converted x \<Longrightarrow> stod b = Converted y \<Longrightarrow>
   read_points lib (a # b # rest) points = read_points lib rest (points @ [radec_point lib x y])"
  by (simp add: radec_point_def Let_def)

lemma read_points_converts:
  "list_all converts coords \<Longrightarrow> even (length coords) \<Longrightarrow>
   \<exists>pts. read_points lib coords points = Inr (Some (points @ pts)) \<and>
         length pts = length coords div 2"
proof (induction lib coords points rule: read_points.induct)
  case (1 lib a b rest points)
  from "1.prems" obtain x y where ab: "stod a = Converted x" "stod b = Converted y"
    by (auto simp: converts_def split: stod_result.splits)
  define p where "p = ToPoint lib y (if dgreater x 180 then dminus x 360 else x)"
  from "1.prems" have "list_all converts rest" "even (length rest)"
    by simp_all
  with "1.IH" [OF ab(1) ab(2) refl] obtain pts where
    pts: "read_points lib rest (points @ [p]) = Inr (Some ((points @ [p]) @ pts))"
      "length pts = length rest div 2"
    unfolding p_def by blast
  have "read_points lib (a # b # rest) points = Inr (Some (points @ (p # pts)))"
    using ab pts(1) by (simp add: p_def Let_def)
  moreover have "length (p # pts) = length (a # b # rest) div 2"
    using pts(2) by simp
  ultimately show ?case by blast
qed simp_all

section \<open>Facts about the index\<close>

lemma load_loop_Inr:
  "load_loop lib regions res = Inr idx \<Longrightarrow>
   \<exists>vss. index idx = index res @ vss \<and> polygons idx = polygons res @ vss \<and>
         names idx = names res \<and>
         list_all2 (\<lambda>region vs. load_region lib region = Inr (Polygon vs)) regions vss"
proof (induction regions arbitrary: res)
  case Nil
  then show ?case by simp
next
  case (Cons region regions)
  from Cons.prems obtain vs where vs: "load_region lib region = Inr (Polygon vs)"
    and rest: "load_loop lib regions (res\<lparr>index := index res @ [vs], polygons := polygons res @ [vs]\<rparr>) = Inr idx"
    by (auto split: sum.splits polygon_ptr.splits)
  from Cons.IH [OF rest] obtain vss where
    "index idx = (index res @ [vs]) @ vss" "polygons idx = (polygons res @ [vs]) @ vss"
    "names idx = names res"
    "list_all2 (\<lambda>region vs. load_region lib region = Inr (Polygon vs)) regions vss"
    by auto
  then have "index idx = index res @ (vs # vss) \<and> polygons idx = polygons res @ (vs # vss) \<and>
     names idx = names res \<and>
     list_all2 (\<lambda>region vs. load_region lib region = Inr (Polygon vs)) (region # regions) (vs # vss)"
    using vs by simp
  then show ?case by blast
qed

lemma load_Inr:
  assumes "load lib obs_id s_region = Inr idx"
  shows "names idx = obs_id" and "polygons idx = index idx"
    and "length obs_id = length s_region" and "length (index idx) = length s_region"
    and "list_all2 (\<lambda>region vs. load_region lib region = Inr (Polygon vs)) s_region (index idx)"
proof -
  from assms have len: "length obs_id = length s_region"
    and loop: "load_loop lib s_region \<lparr>index = [], polygons = [], names = obs_id\<rparr> = Inr idx"
    by (auto simp: load_def split: if_splits)
  from load_loop_Inr [OF loop] obtain vss where
    vss: "index idx = vss" "polygons idx = vss" "names idx = obs_id"
      "list_all2 (\<lambda>region vs. load_region lib region = Inr (Polygon vs)) s_region vss"
    by auto
  show "names idx = obs_id" "polygons idx = index idx" "length obs_id = length s_region"
    "list_all2 (\<lambda>region vs. load_region lib region = Inr (Polygon vs)) s_region (index idx)"
    using vss len by simp_all
  show "length (index idx) = length s_region"
    using vss list_all2_lengthD [OF vss(4)] by simp
qed

lemma visit_containing_shapes_Inr:
  "i + length shapes \<le> length nms \<Longrightarrow>
   visit_containing_shapes lib nms point i shapes res =
     Inr (res @ containing lib (drop i nms) shapes point)"
proof (induction shapes arbitrary: i res)
  case Nil
  then show ?case by (simp add: containing_def)
next
  case (Cons shape shapes)
  from Cons.prems have i: "i < length nms" and rest: "Suc i + length shapes \<le> length nms"
    by simp_all
  have d: "drop i nms = nms ! i # drop (Suc i) nms"
    using i by (simp add: Cons_nth_drop_Suc)
  show ?case
    using Cons.IH [OF rest] i by (simp add: d containing_def)
qed

lemma search_Inr:
  "length (index idx) \<le> length (names idx) \<Longrightarrow>
   search lib idx point = Inr (containing lib (names idx) (index idx) point)"
  using visit_containing_shapes_Inr [of 0 "index idx" "names idx" lib point "[]"]
  by (simp add: search_def)

lemma containing_subset: "set (containing lib nms shapes point) \<subseteq> set nms"
  by (auto simp: containing_def dest: set_zip_leftD)

lemma containing_none:
  "list_all (\<lambda>vs. \<not> Contains lib vs point) shapes \<Longrightarrow> containing lib nms shapes point = []"
  by (auto simp: containing_def filter_empty_conv list_all_iff dest: set_zip_rightD)

lemma containing_nth:
  "length nms = length shapes \<Longrightarrow>
   containing lib nms shapes point =
     map (\<lambda>i. nms ! i) (filter (\<lambda>i. Contains lib (shapes ! i) point) [0..<length shapes])"
proof -
  assume len: "length nms = length shapes"
  have z: "zip nms shapes = map (\<lambda>i. (nms ! i, shapes ! i)) [0..<length shapes]"
    using len by (intro nth_equalityI) simp_all
  show ?thesis
    by (simp add: containing_def z filter_map comp_def)
qed

section \<open>Facts about the query loop\<close>

lemma main_loop_body_Inr:
  assumes "length (index idx) \<le> length (names idx)" and "i < length rows" and "i < length results"
  shows "main_loop_body lib idx rows i results =
     Inr (results[i := \<lparr>ID = row_ID (rows ! i), ra = row_ra (rows ! i), dec = row_dec (rows ! i),
        observations = containing lib (names idx) (index idx)
          (radec_point lib (row_ra (rows ! i)) (row_dec (rows ! i)))\<rparr>])"
  using assms by (simp add: main_loop_body_def search_Inr Let_def)

lemma main_loop_body_frame:
  assumes "main_loop_body lib idx rows i results = Inr results'"
  shows "length results' = length results" and "j \<noteq> i \<Longrightarrow> results' ! j = results ! j"
  using assms
  by (auto simp: main_loop_body_def Let_def split: if_splits sum.splits)

lemma run_iterations_Inr:
  assumes "length (index idx) \<le> length (names idx)"
  shows "set order \<subseteq> {0..<length rows} \<Longrightarrow> length results = length rows \<Longrightarrow>
    run_iterations lib idx rows order results =
      Inr (fold (\<lambda>i rs. rs[i := \<lparr>ID = row_ID (rows ! i), ra = row_ra (rows ! i),
         dec = row_dec (rows ! i),
         observations = containing lib (names idx) (index idx)
           (radec_point lib (row_ra (rows ! i)) (row_dec (rows ! i)))\<rparr>]) order results)"
proof (induction order arbitrary: results)
  case Nil
  then show ?case by simp
next
  case (Cons i order)
  from Cons.prems have i: "i < length rows" "i < length results" and sub: "set order \<subseteq> {0..<length rows}"
    by auto
  show ?case
    using Cons.IH [OF sub] Cons.prems(2)
    by (simp add: main_loop_body_Inr [OF assms i])
qed

lemma fold_update_length: "length (fold (\<lambda>i rs. rs[i := f i]) order results) = length results"
  by (induction order arbitrary: results) simp_all

lemma fold_update_nth:
  "j < length results \<Longrightarrow>
   fold (\<lambda>i rs. rs[i := f i]) order results ! j = (if j \<in> set order then f j else results ! j)"
proof (induction order arbitrary: results)
  case Nil
  then show ?case by simp
next
  case (Cons i order)
  have "j < length (results[i := f i])"
    using Cons.prems by simp
  from Cons.IH [OF this] show ?case
    using Cons.prems by (auto simp: nth_list_update)
qed

lemma fold_update_all:
  assumes "set order = {0..<length results}"
  shows "fold (\<lambda>i rs. rs[i := f i]) order results = map f [0..<length results]"
  by (rule nth_equalityI) (simp_all add: fold_update_length fold_update_nth assms)

lemma main_loop_in_order_Inr:
  assumes "load lib obs_id s_region = Inr idx" and "set order = {0..<length rows}"
  shows "main_loop_in_order lib idx rows order =
     Inr (map (\<lambda>row. \<lparr>ID = row_ID row, ra = row_ra row, dec = row_dec row,
        observations = containing lib obs_id (index idx)
          (radec_point lib (row_ra row) (row_dec row))\<rparr>) rows)"
proof -
  have inv: "length (index idx) \<le> length (names idx)" and nm: "names idx = obs_id"
    using load_Inr [OF assms(1)] by simp_all
  let ?T = "\<lambda>i. \<lparr>ID = row_ID (rows ! i), ra = row_ra (rows ! i), dec = row_dec (rows ! i),
        observations = containing lib (names idx) (index idx)
          (radec_point lib (row_ra (rows ! i)) (row_dec (rows ! i)))\<rparr>"
  have "main_loop_in_order lib idx rows order =
      Inr (fold (\<lambda>i rs. rs[i := ?T i]) order (replicate (length rows) empty_target))"
    unfolding main_loop_in_order_def
    using assms(2) by (intro run_iterations_Inr [OF inv]) simp_all
  also have "fold (\<lambda>i rs. rs[i := ?T i]) order (replicate (length rows) empty_target) =
      map ?T [0..<length (replicate (length rows) empty_target)]"
    using assms(2) by (intro fold_update_all) simp
  also have "\<dots> = map (\<lambda>row. \<lparr>ID = row_ID row, ra = row_ra row, dec = row_dec row,
        observations = containing lib obs_id (index idx)
          (radec_point lib (row_ra row) (row_dec row))\<rparr>) rows"
    by (rule nth_equalityI) (simp_all add: nm)
  finally show ?thesis .
qed

section \<open>The example dataset\<close>

lemma load_box: "load box_lib box_obs_id box_s_region = Inr box_index"
  by (simp add: load_def region_eval box_obs_id_def box_s_region_def box_index_def)

lemma load_three: "load box_lib three_obs_id three_s_region = Inr three_index"
  by (simp add: load_def region_eval three_obs_id_def three_s_region_def three_index_def)

lemma indices_of_three: "set [2, 0, Suc 0] = {0..<length box_rows}"
  by (auto simp: box_rows_def)

lemma search_box:
  "search box_lib box_index (radec_point box_lib (Finite 0) (Finite 0)) = Inr [''obs-0001-1-1'']"
  "search box_lib box_index (radec_point box_lib (Finite 45) (Finite 45)) = Inr []"
  "search box_lib box_index (radec_point box_lib (Finite (719 / 2)) (Finite (1 / 2))) = Inr [''obs-0001-1-1'']"
  by (simp_all add: search_def box_index_def box_lib_def radec_point_def dgreater_def dminus_def
      round64_minus round64_values between_some_def)

lemma main_loop_box:
  "main_loop_in_order box_lib box_index box_rows [2, 0, Suc 0] =
     Inr [\<lparr>ID = ''t1'', ra = Finite 0, dec = Finite 0, observations = [''obs-0001-1-1'']\<rparr>,
          \<lparr>ID = ''t2'', ra = Finite 45, dec = Finite 45, observations = []\<rparr>,
          \<lparr>ID = ''t3'', ra = Finite (719 / 2), dec = Finite (1 / 2), observations = [''obs-0001-1-1'']\<rparr>]"
  by (simp add: main_loop_in_order_def main_loop_body_def search_box box_rows_def empty_target_def)

section \<open>Queries\<close>

text \<open>
  C5. The claim: \<open>search\<close> is total, a point in no footprint gets the empty list, and on an
  index built from zero valid footprints every query gets the empty list. A dataset whose
  footprints are all invalid has zero valid footprints, and for it there is no index to
  query: \<open>load_region\<close> returns a null pointer for \<open>LINE 1 2 3 4\<close>, and \<open>load\<close> ends in the
  null dereference instead of building the index without it.
\<close>

theorem load_without_valid_footprints_faults:
  "\<not> list_ex (parses box_lib) [''LINE 1 2 3 4''] \<and>
   load_region box_lib ''LINE 1 2 3 4'' = Inr (Nullptr InvalidRegion) \<and>
   load box_lib [''obs-a''] [''LINE 1 2 3 4''] = Inl NullDereference"
  by (simp add: parses_def load_def region_eval)

text \<open>
  The rest holds. On every index that \<open>load\<close> has built, every query returns a list, which
  is empty when no polygon of the index contains the point; the index of the empty dataset
  is built, and answers every query with the empty list.
\<close>

lemma search_on_built_index:
  assumes "load lib obs_id s_region = Inr idx"
  shows "(\<exists>ids. search lib idx point = Inr ids \<and>
            (list_all (\<lambda>vs. \<not> Contains lib vs point) (index idx) \<longrightarrow> ids = [])) \<and>
         load lib [] [] = Inr \<lparr>index = [], polygons = [], names = []\<rparr> \<and>
         search lib \<lparr>index = [], polygons = [], names = []\<rparr> point = Inr []"
proof -
  note L = load_Inr [OF assms]
  have inv: "length (index idx) \<le> length (names idx)"
    using L by simp
  have s: "search lib idx point = Inr (containing lib (names idx) (index idx) point)"
    by (rule search_Inr [OF inv])
  have none: "list_all (\<lambda>vs. \<not> Contains lib vs point) (index idx) \<Longrightarrow>
      containing lib (names idx) (index idx) point = []"
    by (rule containing_none)
  have e1: "load lib [] [] = Inr \<lparr>index = [], polygons = [], names = []\<rparr>"
    by (simp add: load_def)
  have e2: "search lib \<lparr>index = [], polygons = [], names = []\<rparr> point = Inr []"
    by (simp add: search_def)
  show ?thesis
    using s none e1 e2 by simp
qed

text \<open>
  C10. On an index that \<open>load\<close> has built, the shape with id \<open>i\<close> is the polygon parsed
  from the \<open>i\<close>-th region string, and \<open>search\<close> reports it under the \<open>i\<close>-th observation
  id: the result lists \<open>obs_id[i]\<close>, by increasing \<open>i\<close>, for the polygons that contain the
  point. Every id returned is an id of the dataset.
\<close>

theorem search_positional_correspondence:
  assumes "load lib obs_id s_region = Inr idx"
  shows "names idx = obs_id \<and> length (index idx) = length obs_id \<and>
         length (polygons idx) = length obs_id \<and> length s_region = length obs_id \<and>
         (\<forall>i<length s_region.
            load_region lib (s_region ! i) = Inr (Polygon (index idx ! i)) \<and>
            polygons idx ! i = index idx ! i) \<and>
         search lib idx point =
           Inr (map (\<lambda>i. obs_id ! i)
                  (filter (\<lambda>i. Contains lib (index idx ! i) point) [0..<length obs_id])) \<and>
         (\<forall>ids. search lib idx point = Inr ids \<longrightarrow> set ids \<subseteq> set obs_id)"
proof -
  note L = load_Inr [OF assms]
  have len: "length (names idx) = length (index idx)"
    using L by simp
  have s: "search lib idx point = Inr (containing lib (names idx) (index idx) point)"
    by (rule search_Inr) (simp add: len)
  have pos: "\<forall>i<length s_region.
      load_region lib (s_region ! i) = Inr (Polygon (index idx ! i)) \<and>
      polygons idx ! i = index idx ! i"
    using L(5) L(2) by (simp add: list_all2_conv_all_nth)
  have "search lib idx point =
      Inr (map (\<lambda>i. obs_id ! i)
             (filter (\<lambda>i. Contains lib (index idx ! i) point) [0..<length obs_id]))"
    using s containing_nth [OF len, of lib point] L by simp
  moreover have "\<forall>ids. search lib idx point = Inr ids \<longrightarrow> set ids \<subseteq> set obs_id"
    using s containing_subset [of lib "names idx" "index idx" point] L(1) by simp
  ultimately show ?thesis
    using L pos by simp
qed

theorem search_positional_correspondence_witness:
  "load box_lib three_obs_id three_s_region = Inr three_index \<and>
   length three_s_region = 3 \<and>
   load_region box_lib (three_s_region ! 0) = Inr (Polygon (index three_index ! 0)) \<and>
   load_region box_lib (three_s_region ! 1) = Inr (Polygon (index three_index ! 1)) \<and>
   load_region box_lib (three_s_region ! 2) = Inr (Polygon (index three_index ! 2)) \<and>
   index three_index ! 1 = [(9, 9), (9, 11), (11, 11), (11, 9)] \<and>
   search box_lib three_index (10, 10) = Inr [three_obs_id ! 1, three_obs_id ! 2] \<and>
   search box_lib three_index (0, 0) = Inr [three_obs_id ! 0, three_obs_id ! 2] \<and>
   search box_lib three_index (15, 15) = Inr [three_obs_id ! 2]"
proof -
  have n: "length three_s_region = 3" "length three_obs_id = 3"
    by (simp_all add: three_s_region_def three_obs_id_def)
  have u: "[0..<3] = [0, 1, 2]"
    by (simp add: upt_rec)
  have c: "Contains box_lib (index three_index ! 0) (0, 0)"
    "\<not> Contains box_lib (index three_index ! 1) (0, 0)"
    "Contains box_lib (index three_index ! 2) (0, 0)"
    "\<not> Contains box_lib (index three_index ! 0) (10, 10)"
    "Contains box_lib (index three_index ! 1) (10, 10)"
    "Contains box_lib (index three_index ! 2) (10, 10)"
    "\<not> Contains box_lib (index three_index ! 0) (15, 15)"
    "\<not> Contains box_lib (index three_index ! 1) (15, 15)"
    "Contains box_lib (index three_index ! 2) (15, 15)"
    by (simp_all add: three_index_def box_lib_def between_some_def)
  have i: "index three_index ! 1 = [(9, 9), (9, 11), (11, 11), (11, 9)]"
    by (simp add: three_index_def)
  note T = search_positional_correspondence [OF load_three]
  from T [of "(0, 0)"] have p: "\<forall>i<length three_s_region.
      load_region box_lib (three_s_region ! i) = Inr (Polygon (index three_index ! i))"
    by blast
  have p0: "load_region box_lib (three_s_region ! 0) = Inr (Polygon (index three_index ! 0))"
    and p1: "load_region box_lib (three_s_region ! 1) = Inr (Polygon (index three_index ! 1))"
    and p2: "load_region box_lib (three_s_region ! 2) = Inr (Polygon (index three_index ! 2))"
    using p by (simp_all add: n)
  from T [of "(10, 10)"] have s10: "search box_lib three_index (10, 10) =
      Inr (map (\<lambda>i. three_obs_id ! i)
             (filter (\<lambda>i. Contains box_lib (index three_index ! i) (10, 10)) [0..<length three_obs_id]))"
    by blast
  from T [of "(0, 0)"] have s0: "search box_lib three_index (0, 0) =
      Inr (map (\<lambda>i. three_obs_id ! i)
             (filter (\<lambda>i. Contains box_lib (index three_index ! i) (0, 0)) [0..<length three_obs_id]))"
    by blast
  from T [of "(15, 15)"] have s15: "search box_lib three_index (15, 15) =
      Inr (map (\<lambda>i. three_obs_id ! i)
             (filter (\<lambda>i. Contains box_lib (index three_index ! i) (15, 15)) [0..<length three_obs_id]))"
    by blast
  have q10: "search box_lib three_index (10, 10) = Inr [three_obs_id ! 1, three_obs_id ! 2]"
    unfolding s10 n u using c by simp
  have q0: "search box_lib three_index (0, 0) = Inr [three_obs_id ! 0, three_obs_id ! 2]"
    unfolding s0 n u using c by simp
  have q15: "search box_lib three_index (15, 15) = Inr [three_obs_id ! 2]"
    unfolding s15 n u using c by simp
  show ?thesis
    by (intro conjI load_three n(1) p0 p1 p2 i q10 q0 q15)
qed

section \<open>The batch of queries\<close>

text \<open>
  C6. For every list of input rows and every index that \<open>load\<close> has built, the loop fills
  a result vector as long as the input whose \<open>i\<close>-th element carries the ID of the \<open>i\<close>-th
  row. The vector is the same for every order in which the iterations complete, and so
  equal to that of the sequential loop, because an iteration changes no slot but its own.
\<close>

theorem main_loop_preserves_order:
  assumes "load lib obs_id s_region = Inr idx" and "set order = {0..<length rows}"
  shows "(\<exists>out. main_loop_in_order lib idx rows order = Inr out \<and>
            main_loop lib idx rows = Inr out \<and>
            length out = length rows \<and>
            (\<forall>i<length rows. ID (out ! i) = row_ID (rows ! i))) \<and>
         (\<forall>i j results results'.
            main_loop_body lib idx rows i results = Inr results' \<and> j \<noteq> i \<longrightarrow>
            length results' = length results \<and> results' ! j = results ! j)"
proof -
  let ?out = "map (\<lambda>row. \<lparr>ID = row_ID row, ra = row_ra row, dec = row_dec row,
        observations = containing lib obs_id (index idx)
          (radec_point lib (row_ra row) (row_dec row))\<rparr>) rows"
  have a: "main_loop_in_order lib idx rows order = Inr ?out"
    by (rule main_loop_in_order_Inr [OF assms])
  have "set [0..<length rows] = {0..<length rows}"
    by simp
  from main_loop_in_order_Inr [OF assms(1) this]
  have b: "main_loop lib idx rows = Inr ?out"
    by (simp add: main_loop_def)
  have c: "length ?out = length rows \<and> (\<forall>i<length rows. ID (?out ! i) = row_ID (rows ! i))"
    by simp
  have d: "\<forall>i j results results'.
      main_loop_body lib idx rows i results = Inr results' \<and> j \<noteq> i \<longrightarrow>
      length results' = length results \<and> results' ! j = results ! j"
    using main_loop_body_frame by blast
  from a b c d show ?thesis
    by blast
qed

theorem main_loop_preserves_order_witness:
  "load box_lib box_obs_id box_s_region = Inr box_index \<and>
   set [2, 0, Suc 0] = {0..<length box_rows} \<and>
   (\<exists>out. main_loop_in_order box_lib box_index box_rows [2, 0, Suc 0] = Inr out \<and>
      main_loop box_lib box_index box_rows = Inr out \<and>
      length out = 3 \<and>
      ID (out ! 0) = ''t1'' \<and> ID (out ! 1) = ''t2'' \<and> ID (out ! 2) = ''t3'') \<and>
   (\<exists>results'.
      main_loop_body box_lib box_index box_rows 0 [empty_target, empty_target, empty_target]
        = Inr results' \<and>
      length results' = 3 \<and> results' ! 1 = empty_target)"
proof -
  note T = main_loop_preserves_order [OF load_box indices_of_three]
  from T obtain out where o: "main_loop_in_order box_lib box_index box_rows [2, 0, Suc 0] = Inr out"
    "main_loop box_lib box_index box_rows = Inr out"
    by blast
  from o(1) have l: "length out = 3 \<and> ID (out ! 0) = ''t1'' \<and> ID (out ! 1) = ''t2'' \<and> ID (out ! 2) = ''t3''"
    by (auto simp: main_loop_box)
  obtain results' where
    b: "main_loop_body box_lib box_index box_rows 0 [empty_target, empty_target, empty_target]
        = Inr results'"
    by (simp add: main_loop_body_def search_box box_rows_def)
  from T have "main_loop_body box_lib box_index box_rows 0 [empty_target, empty_target, empty_target]
        = Inr results' \<and> (1::nat) \<noteq> 0 \<longrightarrow>
      length results' = length [empty_target, empty_target, empty_target] \<and>
      results' ! 1 = [empty_target, empty_target, empty_target] ! 1"
    by blast
  with b have f: "length results' = 3 \<and> results' ! 1 = empty_target"
    by simp
  from o l b f load_box indices_of_three show ?thesis
    by blast
qed

text \<open>
  C7. The Target written for a row carries the row's ID, ra and dec as they were read;
  the observations are the result of \<open>search\<close> at the point made from them. When ra is
  above 180 the point is made from \<open>ra - 360\<close>, and the ra of the Target is still the one
  read.
\<close>

theorem target_keeps_input_fields:
  assumes "load lib obs_id s_region = Inr idx" and "set order = {0..<length rows}"
    and "i < length rows"
  shows "\<exists>out obs.
           main_loop_in_order lib idx rows order = Inr out \<and>
           search lib idx (radec_point lib (row_ra (rows ! i)) (row_dec (rows ! i))) = Inr obs \<and>
           out ! i = \<lparr>ID = row_ID (rows ! i), ra = row_ra (rows ! i), dec = row_dec (rows ! i),
                      observations = obs\<rparr> \<and>
           (dgreater (row_ra (rows ! i)) 180 \<longrightarrow>
              radec_point lib (row_ra (rows ! i)) (row_dec (rows ! i)) =
                ToPoint lib (row_dec (rows ! i)) (dminus (row_ra (rows ! i)) 360))"
proof -
  note L = load_Inr [OF assms(1)]
  let ?pt = "radec_point lib (row_ra (rows ! i)) (row_dec (rows ! i))"
  have "length (index idx) \<le> length (names idx)"
    using L by simp
  then have s: "search lib idx ?pt = Inr (containing lib obs_id (index idx) ?pt)"
    using L(1) by (simp add: search_Inr)
  have n: "dgreater (row_ra (rows ! i)) 180 \<longrightarrow>
      ?pt = ToPoint lib (row_dec (rows ! i)) (dminus (row_ra (rows ! i)) 360)"
    by (simp add: radec_point_def)
  show ?thesis
    using main_loop_in_order_Inr [OF assms(1,2)] s n assms(3) by simp
qed

theorem target_keeps_input_fields_witness:
  "load box_lib box_obs_id box_s_region = Inr box_index \<and>
   set [2, 0, Suc 0] = {0..<length box_rows} \<and> 2 < length box_rows \<and>
   dgreater (row_ra (box_rows ! 2)) 180 \<and>
   radec_point box_lib (row_ra (box_rows ! 2)) (row_dec (box_rows ! 2)) = (1 / 2, - 1 / 2) \<and>
   (\<exists>out. main_loop_in_order box_lib box_index box_rows [2, 0, Suc 0] = Inr out \<and>
      out ! 2 = \<lparr>ID = ''t3'', ra = Finite (719 / 2), dec = Finite (1 / 2),
                 observations = [''obs-0001-1-1'']\<rparr>)"
proof -
  have l: "2 < length box_rows" and g: "dgreater (row_ra (box_rows ! 2)) 180"
    and p: "radec_point box_lib (row_ra (box_rows ! 2)) (row_dec (box_rows ! 2)) = (1 / 2, - 1 / 2)"
    by (simp_all add: box_rows_def dgreater_def dminus_def round64_minus round64_values
        radec_point_def box_lib_def)
  from target_keeps_input_fields [OF load_box indices_of_three l]
  obtain out obs where o: "main_loop_in_order box_lib box_index box_rows [2, 0, Suc 0] = Inr out"
    by blast
  then have "out ! 2 = \<lparr>ID = ''t3'', ra = Finite (719 / 2), dec = Finite (1 / 2),
                 observations = [''obs-0001-1-1'']\<rparr>"
    by (auto simp: main_loop_box)
  with o l g p load_box indices_of_three show ?thesis
    by blast
qed

section \<open>Parsing a region\<close>

lemma load_region_Polygon:
  assumes "load_region lib region = Inr (Polygon vs)"
  shows "\<exists>points. read_points lib (coordinate_tokens region) [] = Inr (Some points) \<and>
           vs = Normalize lib (remove_duplicate_point lib points)"
  using assms
  by (auto simp: load_region_def coordinate_tokens_def
      split: list.splits if_splits sum.splits option.splits)

lemma length_Normalize: "length (Normalize lib vs) = length vs"
  by (simp add: Normalize_def)

lemma length_remove_duplicate_point:
  "length (remove_duplicate_point lib points) \<le> length points"
  "length points - 1 \<le> length (remove_duplicate_point lib points)"
  by (simp_all add: remove_duplicate_point_def)

lemma load_single:
  "load_region lib region = Inr (Polygon vs) \<Longrightarrow>
   load lib [name] [region] = Inr \<lparr>index = [vs], polygons = [vs], names = [name]\<rparr>"
  by (simp add: load_def)

text \<open>
  C2. The claim: a descriptor that leaves fewer than 3 points is rejected by parsing and
  never registered. The code has no test on the number of points: \<open>POLYGON 1 2\<close> gives a
  polygon of one vertex, and \<open>load\<close> registers it.
\<close>

theorem degenerate_polygon_registered:
  "load_region box_lib ''POLYGON 1 2'' = Inr (Polygon [(2, 1)]) \<and>
   load box_lib [''obs-a''] [''POLYGON 1 2'']
     = Inr \<lparr>index = [[(2, 1)]], polygons = [[(2, 1)]], names = [''obs-a'']\<rparr>"
  by (simp add: load_def region_eval)

text \<open>
  C2, as the code has it: when the first token is \<open>POLYGON\<close> and an even number of
  coordinate tokens follow that all convert, \<open>load_region\<close> returns a polygon, whose
  vertices are the parsed points or all of them but the last, however few they are, and
  \<open>load\<close> registers it: alone in a dataset, and at any place of the loop, which appends it
  and goes on.
\<close>

theorem load_region_accepts_any_vertex_count:
  assumes "split_parts region [] = ''POLYGON'' # coords" and "even (length coords)"
    and "list_all converts coords"
  shows "\<exists>vs. load_region lib region = Inr (Polygon vs) \<and>
           length coords div 2 - 1 \<le> length vs \<and> length vs \<le> length coords div 2 \<and>
           load lib [name] [region] = Inr \<lparr>index = [vs], polygons = [vs], names = [name]\<rparr> \<and>
           load_loop lib (region # regions) res =
             load_loop lib regions (res\<lparr>index := index res @ [vs], polygons := polygons res @ [vs]\<rparr>)"
proof -
  from read_points_converts [OF assms(3,2), of lib "[]"] obtain points where
    p: "read_points lib coords [] = Inr (Some points)" "length points = length coords div 2"
    by auto
  let ?vs = "Normalize lib (remove_duplicate_point lib points)"
  have r: "load_region lib region = Inr (Polygon ?vs)"
    using assms(1,2) p(1) by (simp add: load_region_def)
  have "length coords div 2 - 1 \<le> length ?vs \<and> length ?vs \<le> length coords div 2"
    using p(2) length_remove_duplicate_point(1) [of lib points]
      length_remove_duplicate_point(2) [of points lib]
    by (simp add: length_Normalize)
  moreover have "load_loop lib (region # regions) res =
      load_loop lib regions (res\<lparr>index := index res @ [?vs], polygons := polygons res @ [?vs]\<rparr>)"
    by (simp add: r)
  ultimately show ?thesis
    using r load_single [OF r] by blast
qed

theorem load_region_accepts_any_vertex_count_witness:
  "split_parts ''POLYGON 1 2'' [] = ''POLYGON'' # [''1'', ''2''] \<and>
   even (length [''1'', ''2'']) \<and> list_all converts [''1'', ''2''] \<and>
   (\<exists>vs. load_region box_lib ''POLYGON 1 2'' = Inr (Polygon vs) \<and> length vs < 3 \<and>
      load box_lib [''obs-a''] [''POLYGON 1 2'']
        = Inr \<lparr>index = [vs], polygons = [vs], names = [''obs-a'']\<rparr>)"
proof -
  have s: "split_parts ''POLYGON 1 2'' [] = ''POLYGON'' # [''1'', ''2'']"
    by (simp add: split_parts_Nil split_parts_Cons)
  have e: "even (length [''1'', ''2''])" and c: "list_all converts [''1'', ''2'']"
    by (simp_all add: converts_def stod_tokens)
  from load_region_accepts_any_vertex_count
    [OF s e c, where lib = box_lib and name = "''obs-a''" and regions = "[]"
       and res = "\<lparr>index = [], polygons = [], names = [''obs-a'']\<rparr>"]
  obtain vs where v: "load_region box_lib ''POLYGON 1 2'' = Inr (Polygon vs)"
    "length vs \<le> length [''1'', ''2''] div 2"
    "load box_lib [''obs-a''] [''POLYGON 1 2'']
       = Inr \<lparr>index = [vs], polygons = [vs], names = [''obs-a'']\<rparr>"
    by blast
  from v(2) have "length vs < 3"
    by simp
  with v(1,3) s e c show ?thesis
    by blast
qed

section \<open>Facts about rounding\<close>

lemma halvings_bounds:
  "1 \<le> a \<Longrightarrow> a < 2 ^ Suc n \<Longrightarrow>
   0 \<le> halvings n a \<and> 2 ^ nat (halvings n a) \<le> a \<and> a < 2 * 2 ^ nat (halvings n a)"
proof (induction n arbitrary: a)
  case 0
  then show ?case by simp
next
  case (Suc n)
  show ?case
  proof (cases "2 \<le> a")
    case True
    have "1 \<le> a / 2" "a / 2 < 2 ^ Suc n"
      using True Suc.prems by simp_all
    from Suc.IH [OF this] have h: "0 \<le> halvings n (a / 2)"
      "2 ^ nat (halvings n (a / 2)) \<le> a / 2" "a / 2 < 2 * 2 ^ nat (halvings n (a / 2))"
      by simp_all
    have n: "nat (1 + halvings n (a / 2)) = Suc (nat (halvings n (a / 2)))"
      using h(1) by simp
    show ?thesis
      using True h by (simp add: n)
  next
    case False
    then show ?thesis using Suc.prems by simp
  qed
qed

lemma round_half_even_of_int: "round_half_even (of_int z) = z"
  by (simp add: round_half_even_def)

lemma round64_of_nat:
  assumes "m < 2 ^ 53"
  shows "round64 (real m) = real m"
proof (cases "m = 0")
  case True
  then show ?thesis by (simp add: round64_def)
next
  case False
  define a where "a = real m"
  define e where "e = halvings 1024 a"
  have a1: "1 \<le> a" and a53: "a < 2 ^ 53"
    using False assms unfolding a_def
    by (simp, metis of_nat_less_iff of_nat_numeral of_nat_power)
  have "a < 2 ^ Suc 1024"
    using a53 by (rule less_trans) simp
  from halvings_bounds [OF a1 this] have e: "0 \<le> e" "2 ^ nat e \<le> a"
    by (simp_all add: e_def)
  have p: "(2::real) ^ nat e < 2 ^ 53"
    using e(2) a53 by (rule le_less_trans)
  have "nat e < 53"
    by (rule power_less_imp_less_exp [where a = "2::real"]) (simp, rule p)
  then have e52: "e \<le> 52"
    by simp
  define k where "k = nat (52 - e)"
  have ab: "\<bar>a\<bar> = a" "a \<noteq> 0" "\<not> a < 0"
    using a1 by simp_all
  have ex: "exponent a = e"
    using a1 by (simp add: exponent_def e_def)
  have s1: "scale a 2 (52 - e) = of_int (int (m * 2 ^ k))"
    using e52 by (simp add: scale_def k_def a_def)
  have s2: "scale (of_int (int (m * 2 ^ k))) 2 (e - 52) = a"
  proof (cases "e = 52")
    case True
    then show ?thesis by (simp add: scale_def k_def a_def)
  next
    case False
    then have "\<not> 0 \<le> e - 52" "nat (- (e - 52)) = k"
      using e52 by (simp_all add: k_def)
    then show ?thesis
      by (simp add: scale_def a_def)
  qed
  have "round64 a = a"
    unfolding round64_def Let_def ab(1) ex s1 round_half_even_of_int s2
    using ab by simp
  then show ?thesis
    by (simp add: a_def)
qed

section \<open>Facts about numbers followed by other characters\<close>

lemma takeWhile_stop: "\<not> P c \<Longrightarrow> takeWhile P (u @ c # r) = takeWhile P u"
  by (induction u) auto

lemma dropWhile_stop: "\<not> P c \<Longrightarrow> dropWhile P (u @ c # r) = dropWhile P u @ c # r"
  by (induction u) auto

lemma isdigit_plain:
  assumes "isdigit d"
  shows "\<not> isspace d" and "d \<noteq> CHR ''-''" and "d \<noteq> CHR ''+''" and "tolower d = d"
    and "d \<noteq> CHR ''i''" and "d \<noteq> CHR ''n''" and "d \<noteq> CHR ''x''" and "d \<noteq> CHR ''.''"
  using assms by (auto simp: isdigit_def isspace_def tolower_def Let_def)

lemma mantissa_stop:
  assumes "\<not> isdigit c" and "c \<noteq> CHR ''.''"
  shows "mantissa isdigit (u @ c # r) =
     (fst (mantissa isdigit u), fst (snd (mantissa isdigit u)),
      snd (snd (mantissa isdigit u)) @ c # r)"
proof -
  note tw = takeWhile_stop [where P = isdigit and c = c, OF assms(1)]
  note dw = dropWhile_stop [where P = isdigit and c = c, OF assms(1)]
  show ?thesis
  proof (cases "dropWhile isdigit u")
    case Nil
    show ?thesis
      unfolding mantissa_def Let_def tw dw Nil using assms(2) by simp
  next
    case (Cons x r0)
    show ?thesis
      unfolding mantissa_def Let_def tw dw Cons by (simp add: tw dw)
  qed
qed

lemma exponent_part_stop:
  assumes "is_exponent ex" and "\<not> isdigit c" and "tolower c \<noteq> CHR ''e''"
  shows "exponent_part (CHR ''e'') (ex @ c # r) = exponent_part (CHR ''e'') ex"
proof (cases ex)
  case Nil
  then show ?thesis using assms(3) by (simp add: exponent_part_def)
next
  case ex: (Cons e t)
  show ?thesis
  proof (cases t)
    case Nil
    then show ?thesis using assms(1) ex by (simp add: is_exponent_def)
  next
    case (Cons sg t')
    then show ?thesis
      using ex takeWhile_stop [where P = isdigit and c = c, OF assms(2), of t' r]
        takeWhile_stop [where P = isdigit and c = c, OF assms(2), of "sg # t'" r]
      by (simp add: exponent_part_def)
  qed
qed

lemma unsigned_decimal_first:
  assumes "is_unsigned_decimal u"
  obtains d t where "u = d # t" and "isdigit d \<or> d = CHR ''.''"
proof (cases u)
  case Nil
  then show ?thesis using assms by (simp add: is_unsigned_decimal_def)
next
  case (Cons d t)
  have "isdigit d \<or> d = CHR ''.''"
    using assms Cons by (auto simp: is_unsigned_decimal_def split: if_splits)
  with Cons that show ?thesis by blast
qed

lemma unsigned_decimal_exponent:
  assumes "is_unsigned_decimal u"
  shows "is_exponent (snd (snd (mantissa isdigit u))) \<and>
         (fst (mantissa isdigit u) \<noteq> [] \<or> fst (snd (mantissa isdigit u)) \<noteq> [])"
proof (cases "dropWhile isdigit u")
  case Nil
  have "takeWhile isdigit u \<noteq> []"
    using assms unfolding is_unsigned_decimal_def Let_def Nil by simp
  then show ?thesis
    unfolding mantissa_def Let_def Nil by (simp add: is_exponent_def)
next
  case (Cons x t)
  show ?thesis
  proof (cases "x = CHR ''.''")
    case True
    have "(takeWhile isdigit u \<noteq> [] \<or> takeWhile isdigit t \<noteq> []) \<and>
        is_exponent (dropWhile isdigit t)"
      using assms True unfolding is_unsigned_decimal_def Let_def Cons by simp
    then show ?thesis
      unfolding mantissa_def Let_def Cons using True by simp
  next
    case False
    have "takeWhile isdigit u \<noteq> [] \<and> is_exponent (x # t)"
      using assms False unfolding is_unsigned_decimal_def Let_def Cons by simp
    then show ?thesis
      unfolding mantissa_def Let_def Cons using False by simp
  qed
qed

lemma unsigned_decimal_second:
  assumes "is_unsigned_decimal (d # x # t)"
  shows "tolower x \<noteq> CHR ''x''"
proof (cases "isdigit x")
  case True
  from isdigit_plain(4,7) [OF this] show ?thesis by simp
next
  case nx: False
  show ?thesis
  proof (cases "isdigit d")
    case True
    then have "x = CHR ''.'' \<or> is_exponent (x # t)"
      using assms nx by (auto simp: is_unsigned_decimal_def split: if_splits)
    then show ?thesis
      by (auto simp: is_exponent_def tolower_def)
  next
    case False
    then have "d = CHR ''.'' \<and> takeWhile isdigit (x # t) \<noteq> []"
      using assms by (auto simp: is_unsigned_decimal_def split: if_splits)
    then show ?thesis using nx by simp
  qed
qed

lemma unsigned_decimal_not_hex:
  assumes "is_unsigned_decimal u" and "tolower c \<noteq> CHR ''x''"
  shows "\<not> is_hex_start (u @ c # r)" and "\<not> is_hex_start u"
proof -
  from assms(1) obtain d t where u: "u = d # t"
    by (rule unsigned_decimal_first)
  show "\<not> is_hex_start (u @ c # r)"
  proof (cases t)
    case Nil
    then show ?thesis using u assms(2) by (simp add: is_hex_start_def)
  next
    case (Cons x t')
    with assms(1) u have "tolower x \<noteq> CHR ''x''"
      using unsigned_decimal_second by blast
    then show ?thesis using u Cons by (simp add: is_hex_start_def)
  qed
  show "\<not> is_hex_start u"
  proof (cases t)
    case Nil
    then show ?thesis using u by (simp add: is_hex_start_def)
  next
    case (Cons x t')
    with assms(1) u have "tolower x \<noteq> CHR ''x''"
      using unsigned_decimal_second by blast
    then show ?thesis using u Cons by (simp add: is_hex_start_def)
  qed
qed

lemma unsigned_decimal_not_special:
  assumes "is_unsigned_decimal u"
  shows "\<not> starts_with_ci ''inf'' (u @ s)" and "\<not> starts_with_ci ''nan'' (u @ s)"
proof -
  from assms obtain d t where u: "u = d # t" and d: "isdigit d \<or> d = CHR ''.''"
    by (rule unsigned_decimal_first)
  have "tolower d \<noteq> CHR ''i'' \<and> tolower d \<noteq> CHR ''n''"
    using d isdigit_plain(4,5,6) [of d] by (auto simp: tolower_def)
  then show "\<not> starts_with_ci ''inf'' (u @ s)" and "\<not> starts_with_ci ''nan'' (u @ s)"
    by (simp_all add: starts_with_ci_def u)
qed

lemma stod_unsigned_stop:
  assumes "is_unsigned_decimal u" and "non_numeric c"
  shows "stod_unsigned neg (u @ c # r) = stod_unsigned neg u"
proof -
  have c: "\<not> isdigit c" "c \<noteq> CHR ''.''" "tolower c \<noteq> CHR ''e''" "tolower c \<noteq> CHR ''x''"
    using assms(2) by (simp_all add: non_numeric_def)
  obtain ip fp ex where m: "mantissa isdigit u = (ip, fp, ex)"
    by (cases "mantissa isdigit u") auto
  have m': "mantissa isdigit (u @ c # r) = (ip, fp, ex @ c # r)"
    using mantissa_stop [OF c(1,2), of u r] by (simp add: m)
  have "is_exponent ex"
    using unsigned_decimal_exponent [OF assms(1)] by (simp add: m)
  then have e: "exponent_part (CHR ''e'') (ex @ c # r) = exponent_part (CHR ''e'') ex"
    using c(1,3) by (rule exponent_part_stop)
  have sp: "\<not> starts_with_ci ''inf'' (u @ c # r)" "\<not> starts_with_ci ''nan'' (u @ c # r)"
    "\<not> starts_with_ci ''inf'' u" "\<not> starts_with_ci ''nan'' u"
    using unsigned_decimal_not_special [OF assms(1), of "c # r"]
      unsigned_decimal_not_special [OF assms(1), of "[]"] by simp_all
  note hx = unsigned_decimal_not_hex(1) [OF assms(1) c(4), of r]
    unsigned_decimal_not_hex(2) [OF assms(1) c(4)]
  show ?thesis
    unfolding stod_unsigned_def using sp hx by (simp add: m m' e)
qed

lemma stod_number_stop:
  assumes "is_decimal_number n" and "non_numeric c"
  shows "stod (n @ c # r) = stod n"
proof -
  from assms(1) obtain s t where n: "n = s # t"
    by (cases n) (auto simp: is_decimal_number_def)
  show ?thesis
  proof (cases "s = CHR ''-'' \<or> s = CHR ''+''")
    case True
    then have u: "is_unsigned_decimal t"
      using assms(1) n by (auto simp: is_decimal_number_def)
    have "\<not> isspace s"
      using True by (auto simp: isspace_def)
    then show ?thesis
      using True n stod_unsigned_stop [OF u assms(2)] by (auto simp: stod_def)
  next
    case False
    then have u: "is_unsigned_decimal (s # t)"
      using assms(1) n by (auto simp: is_decimal_number_def)
    then have "isdigit s \<or> s = CHR ''.''"
      by (auto elim: unsigned_decimal_first)
    then have "\<not> isspace s"
      using isdigit_plain(1) [of s] by (auto simp: isspace_def)
    then show ?thesis
      using False n stod_unsigned_stop [OF u assms(2), of _ r] by (simp add: stod_def)
  qed
qed

lemma xdigit_val_digit: "isdigit c \<Longrightarrow> xdigit_val c \<le> 9"
  by (auto simp: xdigit_val_def isdigit_def tolower_def Let_def)

lemma digits_val_snoc: "digits_val b (ds @ [c]) = b * digits_val b ds + xdigit_val c"
  by (simp add: digits_val_def)

lemma digits_val_bound: "list_all isdigit ds \<Longrightarrow> digits_val 10 ds < 10 ^ length ds"
proof (induction ds rule: rev_induct)
  case Nil
  then show ?case by (simp add: digits_val_def)
next
  case (snoc c ds)
  then have "digits_val 10 ds < 10 ^ length ds" and "xdigit_val c \<le> 9"
    by (simp_all add: xdigit_val_digit)
  then show ?case
    by (simp add: digits_val_snoc)
qed

lemma in_range_of_nat:
  assumes "m < 10 ^ 15"
  shows "in_range (real m)" and "round64 (real m) = real m"
proof -
  have "real m < 10 ^ 15"
    using assms by (metis of_nat_less_iff of_nat_numeral of_nat_power)
  then have "real m < 2 ^ 1024 - 2 ^ 970"
    by (rule less_trans) simp
  moreover have "1 \<le> real m * 2 ^ 1022" if "m \<noteq> 0"
  proof -
    have "1 \<le> real m" using that by simp
    moreover have "(1::real) \<le> 2 ^ 1022" by simp
    ultimately have "1 * 1 \<le> real m * 2 ^ 1022"
      by (intro mult_mono) simp_all
    then show ?thesis by simp
  qed
  ultimately show "in_range (real m)"
    by (auto simp: in_range_def)
  have "m < 2 ^ 53"
    using assms by (rule less_trans) simp
  then show "round64 (real m) = real m"
    by (rule round64_of_nat)
qed

lemma digits1_decimal: "digits1 ds \<Longrightarrow> is_decimal_number ds"
proof -
  assume a: "digits1 ds"
  then obtain d t where ds: "ds = d # t" and d: "isdigit d"
    by (cases ds) (auto simp: digits1_def)
  have all: "\<And>x. x \<in> set ds \<Longrightarrow> isdigit x"
    using a by (simp add: digits1_def list_all_iff)
  have t: "takeWhile isdigit ds = ds" and dr: "dropWhile isdigit ds = []"
    using all by simp_all
  have "is_unsigned_decimal ds"
    unfolding is_unsigned_decimal_def Let_def t dr using ds by simp
  then show ?thesis
    using isdigit_plain(2,3) [OF d] by (simp add: is_decimal_number_def ds)
qed

lemma stod_digits:
  assumes "digits1 ds" and "length ds \<le> 15"
  shows "stod ds = Converted (Finite (real (digits_val 10 ds)))"
proof -
  from assms(1) obtain d t where ds: "ds = d # t" and d: "isdigit d"
    by (cases ds) (auto simp: digits1_def)
  have all: "list_all isdigit ds"
    using assms(1) by (simp add: digits1_def)
  then have "\<And>x. x \<in> set ds \<Longrightarrow> isdigit x"
    by (simp add: list_all_iff)
  then have t: "takeWhile isdigit ds = ds" and dr: "dropWhile isdigit ds = []"
    by simp_all
  have m: "mantissa isdigit ds = (ds, [], [])"
    unfolding mantissa_def Let_def t dr by simp
  have u: "is_unsigned_decimal ds"
    unfolding is_unsigned_decimal_def Let_def t dr using ds by simp
  have ne: "ds \<noteq> []"
    using ds by simp
  note sp = unsigned_decimal_not_special [OF u, of "[]"]
  have hx: "\<not> is_hex_start ds"
    using unsigned_decimal_not_hex(2) [OF u, of "CHR ''a''"] by (simp add: tolower_def)
  have "digits_val 10 ds < 10 ^ length ds"
    using all by (rule digits_val_bound)
  also have "\<dots> \<le> 10 ^ 15"
    using assms(2) by (intro power_increasing) simp_all
  finally have b: "digits_val 10 ds < 10 ^ 15" .
  note v = in_range_of_nat [OF b]
  have "stod ds = stod_unsigned False ds"
    using isdigit_plain(1,2,3) [OF d] by (simp add: stod_def ds)
  also have "\<dots> = finite_result False (real (digits_val 10 ds))"
    using sp hx ne by (simp add: stod_unsigned_def m exponent_part_def scale_def)
  also have "\<dots> = Converted (Finite (real (digits_val 10 ds)))"
    using v by (simp add: finite_result_def)
  finally show ?thesis .
qed

section \<open>Coordinates\<close>

lemma load_region_InvalidCoordinate:
  assumes "load_region lib region = Inr (Nullptr InvalidCoordinate)"
  shows "read_points lib (coordinate_tokens region) [] = Inr None"
  using assms
  by (auto simp: load_region_def coordinate_tokens_def
      split: list.splits if_splits sum.splits option.splits)

lemma read_points_same_value:
  "stod a = stod a' \<Longrightarrow>
   read_points lib (a # b # rest) points = read_points lib (a' # b # rest) points"
  by simp

text \<open>
  C9. The claim: a coordinate token is rejected only when it has no leading numeric
  prefix, and a token made of a number followed by non-numeric characters is accepted and
  gives the value of the number to the vertex. The token \<open>1e309abc\<close> starts with the
  number \<open>1e309\<close> and is followed by letters, and it is not accepted: the number is beyond
  the range of a double, \<open>std::stod\<close> throws \<open>std::out_of_range\<close>, and \<open>load_region\<close> does
  not return.
\<close>

theorem number_out_of_range_not_accepted:
  "is_decimal_number ''1e309'' \<and> non_numeric (CHR ''a'') \<and>
   has_numeric_prefix ''1e309abc'' \<and>
   stod ''1e309abc'' = OutOfRange \<and> \<not> converts ''1e309abc'' \<and>
   load_region box_lib ''POLYGON 1e309abc 5 20 5 20 9'' = Inl UncaughtOutOfRange"
proof -
  have n: "is_decimal_number ''1e309''"
    by (simp add: is_decimal_number_def is_unsigned_decimal_def is_exponent_def digits1_def
        isdigit_def tolower_def)
  have c: "non_numeric (CHR ''a'')"
    by (simp add: non_numeric_def isdigit_def tolower_def)
  have s: "stod ''1e309abc'' = OutOfRange"
    using stod_number_stop [OF n c, of "''bc''"] by (simp add: stod_1e309)
  have p: "has_numeric_prefix ''1e309abc''"
    by (simp add: has_numeric_prefix_def numeric_start_def isspace_def isdigit_def)
  have l: "load_region box_lib ''POLYGON 1e309abc 5 20 5 20 9'' = Inl UncaughtOutOfRange"
    by (simp add: load_region_def split_parts_Nil split_parts_Cons s)
  show ?thesis
    using n c s p l by (simp add: converts_def)
qed

text \<open>
  C9, as the code has it. \<open>load_region\<close> rejects a descriptor for its coordinates only when
  one of the coordinate tokens has no leading numeric prefix; \<open>std::stod\<close> throws
  \<open>std::invalid_argument\<close> for exactly those tokens. A decimal number that converts,
  followed by a character that continues no number and by anything else, converts to the
  value of the number, and the vertex is the one made from the number alone. One to
  fifteen digits followed by such a character always convert, to the value of the digits:
  \<open>12abc\<close> is read as 12.
\<close>

theorem coordinate_rejected_only_without_numeric_prefix:
  "(load_region lib region = Inr (Nullptr InvalidCoordinate) \<longrightarrow>
      list_ex (\<lambda>t. \<not> has_numeric_prefix t) (coordinate_tokens region)) \<and>
   (stod t = InvalidArgument \<longleftrightarrow> \<not> has_numeric_prefix t) \<and>
   (is_decimal_number n \<and> non_numeric c \<and> stod n = Converted d \<longrightarrow>
      stod (n @ c # r) = Converted d \<and> converts (n @ c # r) \<and>
      read_points lib ((n @ c # r) # b # rest) points = read_points lib (n # b # rest) points) \<and>
   (digits1 ds \<and> length ds \<le> 15 \<and> non_numeric c \<longrightarrow>
      stod (ds @ c # r) = Converted (Finite (real (digits_val 10 ds)))) \<and>
   stod ''12abc'' = Converted (Finite 12) \<and>
   load_region box_lib ''POLYGON 12abc 5 20 5 20 9'' = Inr (Polygon [(5, 12), (5, 20), (9, 20)])"
proof -
  have a: "load_region lib region = Inr (Nullptr InvalidCoordinate) \<longrightarrow>
      list_ex (\<lambda>t. \<not> has_numeric_prefix t) (coordinate_tokens region)"
  proof
    assume "load_region lib region = Inr (Nullptr InvalidCoordinate)"
    from read_points_None [OF load_region_InvalidCoordinate [OF this]]
    show "list_ex (\<lambda>t. \<not> has_numeric_prefix t) (coordinate_tokens region)"
      by (simp add: stod_invalid_iff)
  qed
  have c: "is_decimal_number n \<and> non_numeric c \<and> stod n = Converted d \<longrightarrow>
      stod (n @ c # r) = Converted d \<and> converts (n @ c # r) \<and>
      read_points lib ((n @ c # r) # b # rest) points = read_points lib (n # b # rest) points"
  proof (intro impI, elim conjE)
    assume n: "is_decimal_number n" "non_numeric c" and v: "stod n = Converted d"
    have eq: "stod (n @ c # r) = stod n"
      using n by (rule stod_number_stop)
    have "converts (n @ c # r)"
      by (simp add: converts_def eq v)
    then show "stod (n @ c # r) = Converted d \<and> converts (n @ c # r) \<and>
      read_points lib ((n @ c # r) # b # rest) points = read_points lib (n # b # rest) points"
      using eq v read_points_same_value [OF eq] by simp
  qed
  have e: "digits1 ds \<and> length ds \<le> 15 \<and> non_numeric c \<longrightarrow>
      stod (ds @ c # r) = Converted (Finite (real (digits_val 10 ds)))"
  proof (intro impI, elim conjE)
    assume ds: "digits1 ds" "length ds \<le> 15" and nn: "non_numeric c"
    have "stod (ds @ c # r) = stod ds"
      using digits1_decimal [OF ds(1)] nn by (rule stod_number_stop)
    then show "stod (ds @ c # r) = Converted (Finite (real (digits_val 10 ds)))"
      by (simp add: stod_digits [OF ds])
  qed
  have f: "stod ''12abc'' = Converted (Finite 12)"
    by (simp add: stod_eval)
  have g: "load_region box_lib ''POLYGON 12abc 5 20 5 20 9'' = Inr (Polygon [(5, 12), (5, 20), (9, 20)])"
    by (simp add: region_eval f)
  show ?thesis
    by (intro conjI a stod_invalid_iff c e f g)
qed

theorem coordinate_rejected_only_without_numeric_prefix_witness:
  "load_region box_lib ''POLYGON abc 1'' = Inr (Nullptr InvalidCoordinate) \<and>
   list_ex (\<lambda>t. \<not> has_numeric_prefix t) (coordinate_tokens ''POLYGON abc 1'') \<and>
   is_decimal_number ''-1.5e2'' \<and> non_numeric (CHR ''a'') \<and>
   stod ''-1.5e2'' = Converted (Finite (- 150)) \<and>
   stod (''-1.5e2'' @ CHR ''a'' # ''bc'') = Converted (Finite (- 150)) \<and>
   read_points box_lib [''-1.5e2'' @ CHR ''a'' # ''bc'', ''5''] [] = read_points box_lib [''-1.5e2'', ''5''] [] \<and>
   digits1 ''12'' \<and> length ''12'' \<le> 15 \<and>
   stod (''12'' @ CHR ''a'' # ''bc'') = Converted (Finite (real (digits_val 10 ''12'')))"
proof -
  have r: "load_region box_lib ''POLYGON abc 1'' = Inr (Nullptr InvalidCoordinate)"
    by (simp add: region_eval)
  have n: "is_decimal_number ''-1.5e2''"
    by (simp add: is_decimal_number_def is_unsigned_decimal_def is_exponent_def digits1_def
        isdigit_def tolower_def)
  have c: "non_numeric (CHR ''a'')"
    by (simp add: non_numeric_def isdigit_def tolower_def)
  have v: "stod ''-1.5e2'' = Converted (Finite (- 150))"
    by (simp add: stod_eval)
  have d: "digits1 ''12''" "length ''12'' \<le> 15"
    by (simp_all add: digits1_def isdigit_def)
  note T = coordinate_rejected_only_without_numeric_prefix
    [where lib = box_lib and region = "''POLYGON abc 1''" and n = "''-1.5e2''"
       and c = "CHR ''a''" and r = "''bc''" and d = "Finite (- 150)" and ds = "''12''"
       and b = "''5''" and rest = "[]" and points = "[]"]
  from T r have t1: "list_ex (\<lambda>t. \<not> has_numeric_prefix t) (coordinate_tokens ''POLYGON abc 1'')"
    by blast
  from T n c v have t2: "stod (''-1.5e2'' @ CHR ''a'' # ''bc'') = Converted (Finite (- 150))"
    "read_points box_lib [''-1.5e2'' @ CHR ''a'' # ''bc'', ''5''] [] = read_points box_lib [''-1.5e2'', ''5''] []"
    by blast+
  from T d c have t3: "stod (''12'' @ CHR ''a'' # ''bc'') = Converted (Finite (real (digits_val 10 ''12'')))"
    by blast
  show ?thesis
    by (intro conjI r t1 n c v t2 d t3)
qed

section \<open>Normalisation of the right ascension\<close>

lemma read_points_values:
  "read_points lib coords acc = Inr (Some points) \<Longrightarrow>
   points = acc @ map (\<lambda>(x, y). radec_point lib x y) (coordinate_values coords)"
proof (induction lib coords acc rule: read_points.induct)
  case (1 lib a b rest points')
  from "1.prems" obtain x y where ab: "stod a = Converted x" "stod b = Converted y"
    by (auto split: stod_result.splits)
  define p where "p = ToPoint lib y (if dgreater x 180 then dminus x 360 else x)"
  have rp: "p = radec_point lib x y"
    by (simp add: p_def radec_point_def)
  from "1.prems" ab have "read_points lib rest (points' @ [p]) = Inr (Some points)"
    by (simp add: p_def Let_def)
  from "1.IH" [OF ab(1) ab(2) refl, folded p_def, OF this]
  have "points = (points' @ [p]) @ map (\<lambda>(x, y). radec_point lib x y) (coordinate_values rest)" .
  then show ?case
    using ab by (simp add: rp)
qed simp_all

lemma load_region_vertices:
  assumes "load_region lib region = Inr (Polygon vs)"
  shows "vs = Normalize lib (remove_duplicate_point lib
           (map (\<lambda>(x, y). radec_point lib x y) (coordinate_values (coordinate_tokens region))))"
proof -
  from load_region_Polygon [OF assms] obtain points where
    p: "read_points lib (coordinate_tokens region) [] = Inr (Some points)"
      "vs = Normalize lib (remove_duplicate_point lib points)"
    by blast
  from read_points_values [OF p(1)] p(2) show ?thesis
    by simp
qed

lemma load_region_vertex_set:
  assumes "load_region lib region = Inr (Polygon vs)"
  shows "set vs \<subseteq>
     set (map (\<lambda>(x, y). radec_point lib x y) (coordinate_values (coordinate_tokens region)))"
proof -
  let ?ps = "map (\<lambda>(x, y). radec_point lib x y) (coordinate_values (coordinate_tokens region))"
  have "set (Normalize lib (remove_duplicate_point lib ?ps)) = set (remove_duplicate_point lib ?ps)"
    by (simp add: Normalize_def)
  moreover have "set (remove_duplicate_point lib ?ps) \<subseteq> set ?ps"
    by (auto simp: remove_duplicate_point_def dest: in_set_butlastD)
  moreover have "vs = Normalize lib (remove_duplicate_point lib ?ps)"
    by (rule load_region_vertices [OF assms])
  ultimately show ?thesis
    by blast
qed

text \<open>
  C4. The vertex that \<open>load_region\<close> makes from the values of a pair of tokens is the
  point that \<open>radec_point\<close> makes from the same values: a right ascension above 180 is
  lowered by 360 in both places, and every vertex of every polygon that \<open>load_region\<close>
  returns is such a point. So the vertex read at right ascension 359 is the query point at
  right ascension -1, a descriptor written with 359 gives the polygon of the descriptor
  written with -1, and a query at 359 is answered as the query at -1.
\<close>

theorem ra_normalization_consistent:
  "(stod a = Converted x \<and> stod b = Converted y \<longrightarrow>
      read_points lib (a # b # rest) points =
        read_points lib rest (points @ [radec_point lib x y])) \<and>
   (dgreater x 180 \<longrightarrow> radec_point lib x y = ToPoint lib y (dminus x 360)) \<and>
   (\<not> dgreater x 180 \<longrightarrow> radec_point lib x y = ToPoint lib y x) \<and>
   (load_region lib region = Inr (Polygon vs) \<longrightarrow>
      vs = Normalize lib (remove_duplicate_point lib
             (map (\<lambda>(x, y). radec_point lib x y) (coordinate_values (coordinate_tokens region)))) \<and>
      set vs \<subseteq>
        set (map (\<lambda>(x, y). radec_point lib x y) (coordinate_values (coordinate_tokens region)))) \<and>
   radec_point lib (Finite 359) y = radec_point lib (Finite (- 1)) y \<and>
   (stod a = Converted (Finite 359) \<and> stod b = Converted y \<longrightarrow>
      read_points lib (a # b # rest) points =
        read_points lib rest (points @ [radec_point lib (Finite (- 1)) y])) \<and>
   load_region lib ''POLYGON 359 -1 1 -1 1 1 359 1'' = load_region lib ''POLYGON -1 -1 1 -1 1 1 -1 1'' \<and>
   load_region box_lib ''POLYGON 359 -1 1 -1 1 1 359 1''
     = Inr (Polygon [(- 1, - 1), (- 1, 1), (1, 1), (1, - 1)]) \<and>
   search lib idx (radec_point lib (Finite 359) y) = search lib idx (radec_point lib (Finite (- 1)) y)"
proof -
  have c1: "stod a = Converted x \<and> stod b = Converted y \<longrightarrow>
      read_points lib (a # b # rest) points =
        read_points lib rest (points @ [radec_point lib x y])"
    using read_points_pair [of a x b y lib rest points] by blast
  have c2: "dgreater x 180 \<longrightarrow> radec_point lib x y = ToPoint lib y (dminus x 360)"
    by (simp add: radec_point_def)
  have c3: "\<not> dgreater x 180 \<longrightarrow> radec_point lib x y = ToPoint lib y x"
    by (simp add: radec_point_def)
  have cv: "load_region lib region = Inr (Polygon vs) \<longrightarrow>
      vs = Normalize lib (remove_duplicate_point lib
             (map (\<lambda>(x, y). radec_point lib x y) (coordinate_values (coordinate_tokens region)))) \<and>
      set vs \<subseteq>
        set (map (\<lambda>(x, y). radec_point lib x y) (coordinate_values (coordinate_tokens region)))"
    using load_region_vertices [of lib region vs] load_region_vertex_set [of lib region vs]
    by blast
  have c4: "radec_point lib (Finite 359) y = radec_point lib (Finite (- 1)) y"
    by (simp add: radec_point_def dgreater_def dminus_def round64_minus round64_values)
  have c5: "stod a = Converted (Finite 359) \<and> stod b = Converted y \<longrightarrow>
      read_points lib (a # b # rest) points =
        read_points lib rest (points @ [radec_point lib (Finite (- 1)) y])"
    using read_points_pair [of a "Finite 359" b y lib rest points] by (simp only: c4) blast
  have "read_points lib [''359'', ''-1'', ''1'', ''-1'', ''1'', ''1'', ''359'', ''1''] [] =
      read_points lib [''-1'', ''-1'', ''1'', ''-1'', ''1'', ''1'', ''-1'', ''1''] []"
    by (simp add: stod_tokens dgreater_def dminus_def round64_minus round64_values)
  then have c6: "load_region lib ''POLYGON 359 -1 1 -1 1 1 359 1'' =
      load_region lib ''POLYGON -1 -1 1 -1 1 1 -1 1''"
    by (simp add: load_region_def split_parts_Nil split_parts_Cons del: read_points.simps)
  have cb: "load_region box_lib ''POLYGON 359 -1 1 -1 1 1 359 1''
     = Inr (Polygon [(- 1, - 1), (- 1, 1), (1, 1), (1, - 1)])"
    by (simp add: region_eval)
  have c7: "search lib idx (radec_point lib (Finite 359) y) =
      search lib idx (radec_point lib (Finite (- 1)) y)"
    by (simp only: c4)
  show ?thesis
    by (intro conjI c1 c2 c3 cv c4 c5 c6 cb c7)
qed

theorem ra_normalization_consistent_witness:
  "stod ''359'' = Converted (Finite 359) \<and> stod ''1'' = Converted (Finite 1) \<and>
   dgreater (Finite 359) 180 \<and> \<not> dgreater (Finite (- 1)) 180 \<and>
   read_points box_lib [''359'', ''1''] [] = Inr (Some [radec_point box_lib (Finite (- 1)) (Finite 1)]) \<and>
   radec_point box_lib (Finite 359) (Finite 1) = ToPoint box_lib (Finite 1) (dminus (Finite 359) 360) \<and>
   radec_point box_lib (Finite (- 1)) (Finite 1) = ToPoint box_lib (Finite 1) (Finite (- 1)) \<and>
   radec_point box_lib (Finite 359) (Finite 1) = radec_point box_lib (Finite (- 1)) (Finite 1) \<and>
   load_region box_lib ''POLYGON 359 -1 1 -1 1 1 359 1''
     = Inr (Polygon [(- 1, - 1), (- 1, 1), (1, 1), (1, - 1)]) \<and>
   [(- 1, - 1), (- 1, 1), (1, 1), (1, - 1)]
     = Normalize box_lib (remove_duplicate_point box_lib
         (map (\<lambda>(x, y). radec_point box_lib x y)
            (coordinate_values (coordinate_tokens ''POLYGON 359 -1 1 -1 1 1 359 1'')))) \<and>
   load box_lib box_obs_id [''POLYGON 359 -1 1 -1 1 1 359 1''] = Inr box_index \<and>
   search box_lib box_index (radec_point box_lib (Finite (- 1)) (Finite 0)) = Inr [''obs-0001-1-1''] \<and>
   search box_lib box_index (radec_point box_lib (Finite 359) (Finite 0)) = Inr [''obs-0001-1-1'']"
proof -
  have g: "dgreater (Finite 359) 180" "\<not> dgreater (Finite (- 1)) 180"
    by (simp_all add: dgreater_def)
  have s: "stod ''359'' = Converted (Finite 359)" "stod ''1'' = Converted (Finite 1)"
    by (simp_all add: stod_tokens)
  have l: "load_region box_lib ''POLYGON 359 -1 1 -1 1 1 359 1''
     = Inr (Polygon [(- 1, - 1), (- 1, 1), (1, 1), (1, - 1)])"
    by (simp add: region_eval)
  note T = ra_normalization_consistent
    [where a = "''359''" and b = "''1''" and x = "Finite 359" and y = "Finite 1"
       and lib = box_lib and rest = "[]" and points = "[]"
       and region = "''POLYGON 359 -1 1 -1 1 1 359 1''"
       and vs = "[(- 1, - 1), (- 1, 1), (1, 1), (1, - 1)]"]
  note U = ra_normalization_consistent
    [where x = "Finite (- 1)" and y = "Finite 1" and lib = box_lib]
  note V = ra_normalization_consistent
    [where y = "Finite 0" and lib = box_lib and idx = box_index]
  from T s have a: "read_points box_lib [''359'', ''1''] [] =
      read_points box_lib [] ([] @ [radec_point box_lib (Finite 359) (Finite 1)])"
    by blast
  from T have b: "radec_point box_lib (Finite 359) (Finite 1) =
      radec_point box_lib (Finite (- 1)) (Finite 1)"
    by blast
  from T g(1) have c: "radec_point box_lib (Finite 359) (Finite 1) =
      ToPoint box_lib (Finite 1) (dminus (Finite 359) 360)"
    by blast
  from U g(2) have d: "radec_point box_lib (Finite (- 1)) (Finite 1) =
      ToPoint box_lib (Finite 1) (Finite (- 1))"
    by blast
  from T l have v: "[(- 1, - 1), (- 1, 1), (1, 1), (1, - 1)]
     = Normalize box_lib (remove_duplicate_point box_lib
         (map (\<lambda>(x, y). radec_point box_lib x y)
            (coordinate_values (coordinate_tokens ''POLYGON 359 -1 1 -1 1 1 359 1''))))"
    by blast
  have r: "read_points box_lib [''359'', ''1''] [] =
      Inr (Some [radec_point box_lib (Finite (- 1)) (Finite 1)])"
    unfolding a b by simp
  have i: "load box_lib box_obs_id [''POLYGON 359 -1 1 -1 1 1 359 1''] = Inr box_index"
    by (simp add: load_def l box_obs_id_def box_index_def)
  have q: "search box_lib box_index (radec_point box_lib (Finite (- 1)) (Finite 0)) = Inr [''obs-0001-1-1'']"
    by (simp add: search_def box_index_def box_lib_def radec_point_def dgreater_def between_some_def)
  from V have "search box_lib box_index (radec_point box_lib (Finite 359) (Finite 0)) =
      search box_lib box_index (radec_point box_lib (Finite (- 1)) (Finite 0))"
    by blast
  then have q': "search box_lib box_index (radec_point box_lib (Finite 359) (Finite 0)) = Inr [''obs-0001-1-1'']"
    by (simp only: q)
  show ?thesis
    by (intro conjI s g r c d b l v i q q')
qed

section \<open>The stored polygon\<close>

text \<open>
  C8. The claim: no stored polygon has two equal consecutive points, and a last point
  equal to the first is dropped. The code drops the closing duplicate and removes no other
  point: the descriptor below names the first corner of a square twice, and the stored
  polygon begins with the two equal points.
\<close>

theorem stored_polygon_consecutive_duplicates:
  "load box_lib [''obs-a''] [''POLYGON 0 0 0 0 1 0 1 1 0 1'']
     = Inr \<lparr>index = [[(0, 0), (0, 0), (0, 1), (1, 1), (1, 0)]],
            polygons = [[(0, 0), (0, 0), (0, 1), (1, 1), (1, 0)]], names = [''obs-a'']\<rparr> \<and>
   \<not> no_consecutive_duplicates box_lib [(0, 0), (0, 0), (0, 1), (1, 1), (1, 0)]"
  by (simp add: load_def region_eval)

text \<open>
  C8, as the code has it: for every stored polygon, the last parsed point has been dropped
  when at least two points were parsed and it equals the first; no other point is removed
  and none is added. What is stored is the loop of the remaining points after
  \<open>Normalize()\<close>: these points as they follow one another in the descriptor, or in
  reverse.
\<close>

theorem closing_duplicate_removal:
  assumes "load lib obs_id s_region = Inr idx" and "i < length s_region"
  shows "\<exists>points kept.
           read_points lib (coordinate_tokens (s_region ! i)) [] = Inr (Some points) \<and>
           kept = (if 2 \<le> length points \<and> PointEq lib (hd points) (last points)
                   then butlast points else points) \<and>
           polygons idx ! i = (if IsNormalized lib kept then kept else rev kept) \<and>
           index idx ! i = polygons idx ! i"
proof -
  note L = load_Inr [OF assms(1)]
  have "load_region lib (s_region ! i) = Inr (Polygon (polygons idx ! i))"
    using L(5) L(2) assms(2) by (simp add: list_all2_conv_all_nth)
  from load_region_Polygon [OF this] obtain points where
    p: "read_points lib (coordinate_tokens (s_region ! i)) [] = Inr (Some points)"
      "polygons idx ! i = Normalize lib (remove_duplicate_point lib points)"
    by blast
  define kept where "kept = (if 2 \<le> length points \<and> PointEq lib (hd points) (last points)
                   then butlast points else points)"
  have "polygons idx ! i = (if IsNormalized lib kept then kept else rev kept)"
    using p(2) by (simp add: Normalize_def remove_duplicate_point_def kept_def)
  moreover have "index idx ! i = polygons idx ! i"
    using L(2) by simp
  ultimately show ?thesis
    using p(1) kept_def by blast
qed

theorem closing_duplicate_removal_witness:
  "load box_lib [''obs-a'', ''obs-b''] [''POLYGON 0 0 1 0 1 1 0 0'', ''POLYGON 0 0 1 1 1 0'']
     = Inr \<lparr>index = [[(0, 0), (0, 1), (1, 1)], [(0, 1), (1, 1), (0, 0)]],
            polygons = [[(0, 0), (0, 1), (1, 1)], [(0, 1), (1, 1), (0, 0)]],
            names = [''obs-a'', ''obs-b'']\<rparr> \<and>
   0 < length [''POLYGON 0 0 1 0 1 1 0 0'', ''POLYGON 0 0 1 1 1 0''] \<and>
   1 < length [''POLYGON 0 0 1 0 1 1 0 0'', ''POLYGON 0 0 1 1 1 0''] \<and>
   read_points box_lib (coordinate_tokens ''POLYGON 0 0 1 0 1 1 0 0'') []
     = Inr (Some [(0, 0), (0, 1), (1, 1), (0, 0)]) \<and>
   IsNormalized box_lib [(0, 0), (0, 1), (1, 1)] \<and>
   read_points box_lib (coordinate_tokens ''POLYGON 0 0 1 1 1 0'') []
     = Inr (Some [(0, 0), (1, 1), (0, 1)]) \<and>
   \<not> IsNormalized box_lib [(0, 0), (1, 1), (0, 1)] \<and>
   (\<exists>points. read_points box_lib (coordinate_tokens ''POLYGON 0 0 1 0 1 1 0 0'') [] = Inr (Some points) \<and>
      [(0, 0), (0, 1), (1, 1)] = butlast points) \<and>
   (\<exists>points. read_points box_lib (coordinate_tokens ''POLYGON 0 0 1 1 1 0'') [] = Inr (Some points) \<and>
      [(0, 1), (1, 1), (0, 0)] = rev points)"
proof -
  let ?regions = "[''POLYGON 0 0 1 0 1 1 0 0'', ''POLYGON 0 0 1 1 1 0'']"
  let ?idx = "\<lparr>index = [[(0, 0), (0, 1), (1, 1)], [(0, 1), (1, 1), (0::real, 0::real)]],
            polygons = [[(0, 0), (0, 1), (1, 1)], [(0, 1), (1, 1), (0, 0)]],
            names = [''obs-a'', ''obs-b'']\<rparr>"
  have l: "load box_lib [''obs-a'', ''obs-b''] ?regions = Inr ?idx"
    by (simp add: load_def region_eval)
  have n: "0 < length ?regions" "1 < length ?regions"
    by simp_all
  have r0: "read_points box_lib (coordinate_tokens ''POLYGON 0 0 1 0 1 1 0 0'') []
     = Inr (Some [(0, 0), (0, 1), (1, 1), (0, 0)])"
    by (simp add: coordinate_tokens_def region_eval)
  have r1: "read_points box_lib (coordinate_tokens ''POLYGON 0 0 1 1 1 0'') []
     = Inr (Some [(0, 0), (1, 1), (0, 1)])"
    by (simp add: coordinate_tokens_def region_eval)
  have o: "IsNormalized box_lib [(0, 0), (0, 1), (1, 1)]"
    "\<not> IsNormalized box_lib [(0, 0), (1, 1), (0, 1)]"
    by (simp_all add: box_lib_def counterclockwise_def cross_def)
  from closing_duplicate_removal [OF l n(1)] obtain points kept where
    a: "read_points box_lib (coordinate_tokens (?regions ! 0)) [] = Inr (Some points)"
      "kept = (if 2 \<le> length points \<and> PointEq box_lib (hd points) (last points)
               then butlast points else points)"
      "polygons ?idx ! 0 = (if IsNormalized box_lib kept then kept else rev kept)"
    by blast
  from a(1) r0 have p0: "points = [(0, 0), (0, 1), (1, 1), (0, 0)]"
    by simp
  have k0: "kept = butlast points"
    using a(2) by (simp add: p0 box_lib_def)
  have e0: "\<exists>points. read_points box_lib (coordinate_tokens ''POLYGON 0 0 1 0 1 1 0 0'') [] = Inr (Some points) \<and>
      [(0, 0), (0, 1), (1, 1)] = butlast points"
    using a(1) a(3) k0 o(1) by (auto simp: p0)
  from closing_duplicate_removal [OF l n(2)] obtain points' kept' where
    b: "read_points box_lib (coordinate_tokens (?regions ! 1)) [] = Inr (Some points')"
      "kept' = (if 2 \<le> length points' \<and> PointEq box_lib (hd points') (last points')
               then butlast points' else points')"
      "polygons ?idx ! 1 = (if IsNormalized box_lib kept' then kept' else rev kept')"
    by blast
  from b(1) r1 have p1: "points' = [(0, 0), (1, 1), (0, 1)]"
    by simp
  have k1: "kept' = points'"
    using b(2) by (simp add: p1 box_lib_def)
  have e1: "\<exists>points. read_points box_lib (coordinate_tokens ''POLYGON 0 0 1 1 1 0'') [] = Inr (Some points) \<and>
      [(0, 1), (1, 1), (0, 0)] = rev points"
    using b(1) b(3) k1 o(2) by (auto simp: p1)
  show ?thesis
    by (intro conjI l n r0 o(1) r1 o(2) e0 e1)
qed

text \<open>
  The points are compared as the doubles they are: 359.1 is lowered to a number that is
  not the double nearest to -0.9, so the descriptor below keeps its four points, while the
  one that ends with the right ascension it starts with keeps three.
\<close>

lemma duplicate_point_compared_after_rounding:
  "(\<exists>vs. load_region box_lib ''POLYGON 359.1 0 1 0 1 1 -0.9 0'' = Inr (Polygon vs) \<and> length vs = 4) \<and>
   (\<exists>vs. load_region box_lib ''POLYGON -0.9 0 1 0 1 1 -0.9 0'' = Inr (Polygon vs) \<and> length vs = 3)"
proof -
  have s: "stod ''359.1'' = Converted (Finite (3158677004274893 / 8796093022208))"
    "stod ''-0.9'' = Converted (Finite (- (8106479329266893 / 9007199254740992)))"
    by (simp_all add: stod_eval)
  have d: "round64 (- (7916483719987 / 8796093022208)) = - (7916483719987 / 8796093022208)"
    by (simp add: round64_eval)
  show ?thesis
    by (simp add: load_region_def split_parts_Nil split_parts_Cons stod_tokens s d dgreater_def
        dminus_def box_lib_def Normalize_def remove_duplicate_point_def length_Normalize)
qed

end
